theory Spec2Isabelle
  imports Main
begin

section \<open>Data model\<close>

text \<open>
  The development embeds \<^verbatim>\<open>jsonclasses/json_object.py\<close>: the class \<^verbatim>\<open>JSONObject\<close> with
  its attribute hook \<^verbatim>\<open>__setattr__\<close> and the public operations \<^verbatim>\<open>update\<close>,
  \<^verbatim>\<open>validate\<close>, \<^verbatim>\<open>is_valid\<close>, \<^verbatim>\<open>set\<close> and \<^verbatim>\<open>tojson\<close>.

  Objects live in a store indexed by their identity. A Python value is a scalar, a
  reference to a \<^verbatim>\<open>JSONObject\<close> instance, a plain \<^verbatim>\<open>list\<close> or \<^verbatim>\<open>dict\<close>, one of
  the two owned wrappers, or some other object, of which only a name is kept (such as
  the marker that a class declares as the default of a field). \<^verbatim>\<open>OwnedList\<close> and
  \<^verbatim>\<open>OwnedDict\<close> are subclasses of \<^verbatim>\<open>list\<close> and \<^verbatim>\<open>dict\<close> carrying the attributes
  \<^verbatim>\<open>owner\<close> and \<^verbatim>\<open>keypath\<close> that \<^verbatim>\<open>__setattr__\<close> sets on them.
\<close>

type_synonym addr = nat

datatype val =
    VNone
  | VBool bool
  | VInt int
  | VStr string
  | VInst addr
  | VList "val list"
  | VDict "(string \<times> val) list"
  | OwnedList addr string "val list"
  | OwnedDict addr string "(string \<times> val) list"
  | VObject string

text \<open>
  Modelled from the spec: the enumerations \<^verbatim>\<open>FieldStorage\<close> and \<^verbatim>\<open>FieldType\<close> of
  \<^verbatim>\<open>jsonclasses/fields.py\<close>, which is not among the sources. The hook names the members
  \<^verbatim>\<open>LOCAL_KEY\<close>, \<^verbatim>\<open>FOREIGN_KEY\<close>, \<^verbatim>\<open>INSTANCE\<close> and \<^verbatim>\<open>LIST\<close>; the spec adds a plain
  storage and the scalar kinds.
\<close>

datatype FieldStorage = PLAIN | LOCAL_KEY | FOREIGN_KEY

datatype FieldType = SCALAR | INSTANCE | LIST | DICT

record FieldDescription =
  field_type :: FieldType
  field_storage :: FieldStorage

record Field =
  field_name :: string
  field_description :: FieldDescription

text \<open>An instance: its class and its \<^verbatim>\<open>__dict__\<close>.\<close>

record jsonobject =
  class_name :: string
  inst_dict :: "string \<rightharpoonup> val"

type_synonym heap = "addr \<Rightarrow> jsonobject"

datatype exn =
    StopIteration
  | AttributeError string
  | ValueError string
  | ValidationException string
  | RecursionError
  | OtherException string

text \<open>
  A call either returns a value or raises; both leave a store behind, since whatever
  was assigned before an exception stays assigned.
\<close>

datatype 'a outcome = Return 'a heap | Raise exn heap

fun heap_of :: "'a outcome \<Rightarrow> heap" where
  "heap_of (Return _ h) = h"
| "heap_of (Raise _ h) = h"

text \<open>
  Modelled from the spec: \<^verbatim>\<open>LookupMap\<close> (\<^verbatim>\<open>jsonclasses/lookup_map.py\<close> is not among the
  sources), the per-traversal set of visited objects, here the list of the pairs
  (object identity, traversal role) already visited. \<^verbatim>\<open>LookupMap()\<close> makes a new one,
  which is empty.
\<close>

type_synonym LookupMap = "(addr \<times> string) list"

definition LookupMap :: LookupMap where
  "LookupMap = []"

text \<open>
  \<^verbatim>\<open>Config\<close> (\<^verbatim>\<open>jsonclasses/config.py\<close>, not among the sources) has the attributes that
  \<^verbatim>\<open>old_tests/test_jsonclass_decorator.py\<close> builds and reads.
\<close>

record Config =
  class_graph :: string
  camelize_json_keys :: bool
  camelize_db_keys :: bool
  linked_class :: string

text \<open>
  The context classes of \<^verbatim>\<open>jsonclasses/contexts.py\<close> are not among the sources. What
  the operations show of a context is the call of its constructor: a context is the list
  of the keyword arguments of that call, each with the value passed.
\<close>

datatype arg =
    ANone
  | ABool bool
  | AStr string
  | AObj addr
  | AConfig Config
  | AKwargs "(string \<times> val) list"
  | ALookupMap LookupMap

type_synonym call_context = "(string \<times> arg) list"


text \<open>
  Everything the class imports from modules that are not among the sources is a
  parameter of the model:
  \<^item> \<^verbatim>\<open>fields(self)\<close>, the field descriptors of the class of \<^verbatim>\<open>self\<close>;
  \<^item> \<^verbatim>\<open>other_field(self, value, sfield)\<close>, the inverse descriptor on the class of
    \<^verbatim>\<open>value\<close>; following the spec it is a table from (class, class, field), fixed when
    the classes are declared;
  \<^item> the \<^verbatim>\<open>__eq__\<close> of two different instances of one class. \<^verbatim>\<open>JSONObject\<close> is
    declared with \<^verbatim>\<open>@dataclass(init=False)\<close>, so \<^verbatim>\<open>==\<close>, \<^verbatim>\<open>!=\<close> and \<^verbatim>\<open>in\<close> on
    instances call the generated \<^verbatim>\<open>__eq__\<close>, which compares the dataclass fields of
    two instances of the same class, field by field and into the objects these hold.
    It answers or raises: on objects that refer back to each other the comparison can
    go round without end, which Python stops with a \<^verbatim>\<open>RecursionError\<close>;
  \<^item> the attributes of a class: an attribute that is not in the \<^verbatim>\<open>__dict__\<close> of an
    object is looked up in its class, where a field declared with a default has one;
  \<^item> the order in which a \<^verbatim>\<open>set\<close> of strings is iterated, which Python leaves open;
  \<^item> \<^verbatim>\<open>dataclasses.fields(self)\<close>, the names of the dataclass fields;
  \<^item> \<^verbatim>\<open>cls.config\<close>, and the three entry points of \<^verbatim>\<open>InstanceOfValidator\<close>.
\<close>

record env =
  fields_of :: "string \<Rightarrow> Field list"
  other_field :: "string \<Rightarrow> string \<Rightarrow> Field \<Rightarrow> Field option"
  instance_eq :: "heap \<Rightarrow> addr \<Rightarrow> addr \<Rightarrow> exn + bool"
  class_attr :: "string \<Rightarrow> string \<Rightarrow> val option"
  set_order :: "string list \<Rightarrow> string list"
  dataclass_fields :: "string \<Rightarrow> string list"
  config :: "string \<Rightarrow> Config"
  validator_transform :: "string \<Rightarrow> call_context \<Rightarrow> heap \<Rightarrow> unit outcome"
  validator_validate :: "string \<Rightarrow> call_context \<Rightarrow> heap \<Rightarrow> unit outcome"
  validator_tojson :: "string \<Rightarrow> call_context \<Rightarrow> heap \<Rightarrow> val outcome"

section \<open>Attribute access\<close>

text \<open>\<^verbatim>\<open>object.__setattr__\<close>: the entry of \<^verbatim>\<open>__dict__\<close> is written, nothing else changes.\<close>

definition super_setattr :: "heap \<Rightarrow> addr \<Rightarrow> string \<Rightarrow> val \<Rightarrow> heap" where
  "super_setattr h self name v =
     h(self := (h self)\<lparr>inst_dict := (inst_dict (h self))(name \<mapsto> v)\<rparr>)"

text \<open>
  \<^verbatim>\<open>getattr\<close>: the entry of \<^verbatim>\<open>__dict__\<close>, else the attribute of the class, else
  \<^verbatim>\<open>AttributeError\<close>.
\<close>

definition getattr :: "env \<Rightarrow> heap \<Rightarrow> addr \<Rightarrow> string \<Rightarrow> exn + val" where
  "getattr E h obj name =
     (case inst_dict (h obj) name of
        Some v \<Rightarrow> Inr v
      | None \<Rightarrow>
          (case class_attr E (class_name (h obj)) name of
             Some v \<Rightarrow> Inr v
           | None \<Rightarrow> Inl (AttributeError name)))"

fun isinstance_list :: "val \<Rightarrow> bool" where
  "isinstance_list (VList _) = True"
| "isinstance_list (OwnedList _ _ _) = True"
| "isinstance_list _ = False"

fun isinstance_dict :: "val \<Rightarrow> bool" where
  "isinstance_dict (VDict _) = True"
| "isinstance_dict (OwnedDict _ _ _) = True"
| "isinstance_dict _ = False"

fun list_items :: "val \<Rightarrow> val list" where
  "list_items (VList xs) = xs"
| "list_items (OwnedList _ _ xs) = xs"
| "list_items _ = []"

fun dict_items :: "val \<Rightarrow> (string \<times> val) list" where
  "dict_items (VDict kvs) = kvs"
| "dict_items (OwnedDict _ _ kvs) = kvs"
| "dict_items _ = []"

text \<open>
  \<^verbatim>\<open>x == self\<close> for an instance \<^verbatim>\<open>self\<close>, which is also what \<^verbatim>\<open>x != self\<close> computes
  before it negates. The generated \<^verbatim>\<open>__eq__\<close> answers for an instance of the same
  class: an instance equals itself (its fields are identical), another instance of the
  class is compared by \<^verbatim>\<open>instance_eq\<close>, which may raise. For anything else both sides
  return \<^verbatim>\<open>NotImplemented\<close> and Python falls back on identity.
\<close>

fun py_eq :: "env \<Rightarrow> heap \<Rightarrow> val \<Rightarrow> addr \<Rightarrow> exn + bool" where
  "py_eq E h (VInst p) self =
     (if p = self then Inr True
      else if class_name (h p) = class_name (h self) then instance_eq E h p self
      else Inr False)"
| "py_eq E h _ self = Inr False"

text \<open>
  \<^verbatim>\<open>self in xs\<close>: the elements are compared with \<^verbatim>\<open>self\<close> from the first on, up to one
  that is \<^verbatim>\<open>self\<close> or equals it; a comparison that raises ends the search.
\<close>

fun py_in :: "env \<Rightarrow> heap \<Rightarrow> addr \<Rightarrow> val list \<Rightarrow> exn + bool" where
  "py_in E h self [] = Inr False"
| "py_in E h self (x # xs) =
     (case py_eq E h x self of
        Inl e \<Rightarrow> Inl e
      | Inr found \<Rightarrow> if found then Inr True else py_in E h self xs)"

text \<open>
  \<^verbatim>\<open>xs.append(self)\<close> on the list stored in an attribute. The list is changed in place;
  an \<^verbatim>\<open>OwnedList\<close> then calls \<^verbatim>\<open>owner.__olist_add__\<close>, which \<^verbatim>\<open>JSONObject\<close> defines
  as \<^verbatim>\<open>pass\<close>.
\<close>

fun list_append :: "val \<Rightarrow> val \<Rightarrow> val" where
  "list_append (VList xs) x = VList (xs @ [x])"
| "list_append (OwnedList ow kp xs) x = OwnedList ow kp (xs @ [x])"
| "list_append v x = v"

section \<open>The attribute hook\<close>

text \<open>
  \<^verbatim>\<open>JSONObject.__setattr__\<close>. The hook calls itself through \<^verbatim>\<open>setattr(value, ...)\<close>;
  the first argument bounds the depth of these calls, and \<open>None\<close> says that the bound
  was reached. An exception of \<^verbatim>\<open>getattr\<close>, of \<^verbatim>\<open>!=\<close> or of \<^verbatim>\<open>in\<close> ends the hook with
  the store as it is then.
\<close>

fun setattr ::
  "nat \<Rightarrow> env \<Rightarrow> heap \<Rightarrow> addr \<Rightarrow> string \<Rightarrow> val \<Rightarrow> unit outcome option" where
  "setattr 0 E h self name value = None"
| "setattr (Suc d) E h self name value =
     (if isinstance_list value then
        Some (Return () (super_setattr h self name (OwnedList self name (list_items value))))
      else if isinstance_dict value then
        Some (Return () (super_setattr h self name (OwnedDict self name (dict_items value))))
      else
        let h1 = super_setattr h self name value in
        (case value of
           VInst v \<Rightarrow>
             (case find (\<lambda>f. field_name f = name) (fields_of E (class_name (h1 self))) of
                None \<Rightarrow> Some (Raise StopIteration h1)
              | Some sfield \<Rightarrow>
                  let fstore = field_storage (field_description sfield) in
                  if fstore = LOCAL_KEY \<or> fstore = FOREIGN_KEY then
                    (case other_field E (class_name (h1 self)) (class_name (h1 v)) sfield of
                       None \<Rightarrow> Some (Return () h1)
                     | Some ofield \<Rightarrow>
                         if field_type (field_description ofield) = INSTANCE then
                           (case getattr E h1 v (field_name ofield) of
                              Inl e \<Rightarrow> Some (Raise e h1)
                            | Inr cur \<Rightarrow>
                                (case py_eq E h1 cur self of
                                   Inl e \<Rightarrow> Some (Raise e h1)
                                 | Inr equal \<Rightarrow>
                                     if \<not> equal then
                                       setattr d E h1 v (field_name ofield) (VInst self)
                                     else Some (Return () h1)))
                         else if field_type (field_description ofield) = LIST then
                           (case getattr E h1 v (field_name ofield) of
                              Inl e \<Rightarrow> Some (Raise e h1)
                            | Inr cur \<Rightarrow>
                                if \<not> isinstance_list cur then
                                  setattr d E h1 v (field_name ofield) (VList [VInst self])
                                else
                                  (case py_in E h1 self (list_items cur) of
                                     Inl e \<Rightarrow> Some (Raise e h1)
                                   | Inr found \<Rightarrow>
                                       if \<not> found then
                                         Some (Return ()
                                           (super_setattr h1 v (field_name ofield)
                                              (list_append cur (VInst self))))
                                       else Some (Return () h1)))
                         else Some (Return () h1))
                  else Some (Return () h1))
         | _ \<Rightarrow> Some (Return () h1)))"

section \<open>The public operations\<close>

text \<open>\<^verbatim>\<open>', '.join(keys)\<close>.\<close>

fun join :: "string \<Rightarrow> string list \<Rightarrow> string" where
  "join sep [] = []"
| "join sep [k] = k"
| "join sep (k # ks) = k @ sep @ join sep ks"

text \<open>
  \<^verbatim>\<open>list(s)\<close> for a set \<^verbatim>\<open>s\<close> of strings, given by its elements: each element once, in
  the order \<^verbatim>\<open>set_order\<close> gives them, as long as that is an order of these elements.
\<close>

definition list_of_set :: "env \<Rightarrow> string list \<Rightarrow> string list" where
  "list_of_set E ks =
     (let out = set_order E (remdups ks)
      in if distinct out \<and> set out = set ks then out else remdups ks)"

text \<open>\<^verbatim>\<open>list(set(kwargs.keys()) - set(self.__dict__.keys()))\<close>.\<close>

definition unallowed_keys :: "env \<Rightarrow> heap \<Rightarrow> addr \<Rightarrow> (string \<times> val) list \<Rightarrow> string list" where
  "unallowed_keys E h self kwargs =
     list_of_set E (filter (\<lambda>k. inst_dict (h self) k = None) (map fst kwargs))"

text \<open>The loop \<^verbatim>\<open>for key, item in kwargs.items(): setattr(self, key, item)\<close>.\<close>

fun update_loop ::
  "nat \<Rightarrow> env \<Rightarrow> heap \<Rightarrow> addr \<Rightarrow> (string \<times> val) list \<Rightarrow> unit outcome option" where
  "update_loop d E h self [] = Some (Return () h)"
| "update_loop d E h self ((key, item) # kwargs) =
     (case setattr d E h self key item of
        None \<Rightarrow> None
      | Some (Raise e h') \<Rightarrow> Some (Raise e h')
      | Some (Return _ h') \<Rightarrow> update_loop d E h' self kwargs)"

text \<open>\<^verbatim>\<open>JSONObject.update\<close>; it returns \<^verbatim>\<open>self\<close>.\<close>

definition update ::
  "nat \<Rightarrow> env \<Rightarrow> heap \<Rightarrow> addr \<Rightarrow> (string \<times> val) list \<Rightarrow> addr outcome option" where
  "update d E h self kwargs =
     (let unallowed = unallowed_keys E h self kwargs;
          unallowed_keys_length = length unallowed
      in if unallowed_keys_length > 0 then
           let keys_list = join '', '' unallowed
           in Some (Raise (ValueError (''`'' @ keys_list @ ''` not allowed in ''
                                        @ class_name (h self) @ ''.'')) h)
         else
           (case update_loop d E h self kwargs of
              None \<Rightarrow> None
            | Some (Raise e h') \<Rightarrow> Some (Raise e h')
            | Some (Return _ h') \<Rightarrow> Some (Return self h')))"







text \<open>The context that \<^verbatim>\<open>JSONObject.validate\<close> builds, and \<^verbatim>\<open>validate\<close>.\<close>

definition validate_context :: "env \<Rightarrow> heap \<Rightarrow> addr \<Rightarrow> bool option \<Rightarrow> call_context" where
  "validate_context E h self all_fields =
     (let config = config E (class_name (h self))
      in [(''value'', AObj self),
          (''keypath_root'', AStr []),
          (''root'', AObj self),
          (''config_root'', AConfig config),
          (''keypath_owner'', AStr []),
          (''owner'', AObj self),
          (''config_owner'', AConfig config),
          (''keypath_parent'', AStr []),
          (''parent'', AObj self),
          (''field_description'', ANone),
          (''all_fields'', (case all_fields of None \<Rightarrow> ANone | Some b \<Rightarrow> ABool b)),
          (''lookup_map'', ALookupMap LookupMap)])"

definition validate :: "env \<Rightarrow> heap \<Rightarrow> addr \<Rightarrow> bool option \<Rightarrow> addr outcome" where
  "validate E h self all_fields =
     (case validator_validate E (class_name (h self)) (validate_context E h self all_fields) h of
        Raise e h' \<Rightarrow> Raise e h'
      | Return _ h' \<Rightarrow> Return self h')"

text \<open>
  \<^verbatim>\<open>JSONObject.is_valid\<close>: only \<^verbatim>\<open>ValidationException\<close> is caught, any other exception
  goes on to the caller.
\<close>

definition is_valid :: "env \<Rightarrow> heap \<Rightarrow> addr \<Rightarrow> bool outcome" where
  "is_valid E h self =
     (case validate E h self (Some False) of
        Raise (ValidationException m) h' \<Rightarrow> Return False h'
      | Raise e h' \<Rightarrow> Raise e h'
      | Return _ h' \<Rightarrow> Return True h')"

text \<open>
  What the hook hands to \<^verbatim>\<open>object.__setattr__\<close> (lines 155 to 166): the owned wrapper of
  a list or of a dict, any other value as it is.
\<close>

definition stored_value :: "addr \<Rightarrow> string \<Rightarrow> val \<Rightarrow> val" where
  "stored_value self name v =
     (if isinstance_list v then OwnedList self name (list_items v)
      else if isinstance_dict v then OwnedDict self name (dict_items v)
      else v)"

section \<open>One step of the hook\<close>

text \<open>
  The body of \<^verbatim>\<open>__setattr__\<close> up to its call of \<^verbatim>\<open>setattr\<close>: either the hook is done with
  an outcome, or it goes on with one nested assignment. The hook is the iteration of this
  step (lemma \<open>setattr_Suc\<close> below).
\<close>

datatype step = Finish "unit outcome" | Again heap addr string val

definition hook_step :: "env \<Rightarrow> heap \<Rightarrow> addr \<Rightarrow> string \<Rightarrow> val \<Rightarrow> step" where
  "hook_step E h self name value =
     (if isinstance_list value then
        Finish (Return () (super_setattr h self name (OwnedList self name (list_items value))))
      else if isinstance_dict value then
        Finish (Return () (super_setattr h self name (OwnedDict self name (dict_items value))))
      else
        let h1 = super_setattr h self name value in
        (case value of
           VInst v \<Rightarrow>
             (case find (\<lambda>f. field_name f = name) (fields_of E (class_name (h1 self))) of
                None \<Rightarrow> Finish (Raise StopIteration h1)
              | Some sfield \<Rightarrow>
                  let fstore = field_storage (field_description sfield) in
                  if fstore = LOCAL_KEY \<or> fstore = FOREIGN_KEY then
                    (case other_field E (class_name (h1 self)) (class_name (h1 v)) sfield of
                       None \<Rightarrow> Finish (Return () h1)
                     | Some ofield \<Rightarrow>
                         if field_type (field_description ofield) = INSTANCE then
                           (case getattr E h1 v (field_name ofield) of
                              Inl e \<Rightarrow> Finish (Raise e h1)
                            | Inr cur \<Rightarrow>
                                (case py_eq E h1 cur self of
                                   Inl e \<Rightarrow> Finish (Raise e h1)
                                 | Inr equal \<Rightarrow>
                                     if \<not> equal then
                                       Again h1 v (field_name ofield) (VInst self)
                                     else Finish (Return () h1)))
                         else if field_type (field_description ofield) = LIST then
                           (case getattr E h1 v (field_name ofield) of
                              Inl e \<Rightarrow> Finish (Raise e h1)
                            | Inr cur \<Rightarrow>
                                if \<not> isinstance_list cur then
                                  Again h1 v (field_name ofield) (VList [VInst self])
                                else
                                  (case py_in E h1 self (list_items cur) of
                                     Inl e \<Rightarrow> Finish (Raise e h1)
                                   | Inr found \<Rightarrow>
                                       if \<not> found then
                                         Finish (Return ()
                                           (super_setattr h1 v (field_name ofield)
                                              (list_append cur (VInst self))))
                                       else Finish (Return () h1)))
                         else Finish (Return () h1))
                  else Finish (Return () h1))
         | _ \<Rightarrow> Finish (Return () h1)))"

text \<open>
  The declared field names of an object, and the number of declared attributes of \<open>x\<close> and
  \<open>y\<close> that do not hold a reference to the other one: the nested assignments between
  \<open>x\<close> and \<open>y\<close> can go on only as long as this number falls.
\<close>

definition declared :: "env \<Rightarrow> heap \<Rightarrow> addr \<Rightarrow> string list" where
  "declared E h p = map field_name (fields_of E (class_name (h p)))"

definition pending :: "env \<Rightarrow> heap \<Rightarrow> addr \<Rightarrow> addr \<Rightarrow> nat" where
  "pending E h x y =
     length (filter (\<lambda>n. inst_dict (h x) n \<noteq> Some (VInst y)) (declared E h x)) +
     length (filter (\<lambda>n. inst_dict (h y) n \<noteq> Some (VInst x)) (declared E h y))"

text \<open>
  The descriptor that \<^verbatim>\<open>other_field\<close> returns is a descriptor of the other class, the one
  that \<^verbatim>\<open>fields\<close> lists under its name.
\<close>

definition wf_env :: "env \<Rightarrow> bool" where
  "wf_env E =
     (\<forall>c c' f g. other_field E c c' f = Some g \<longrightarrow>
        find (\<lambda>x. field_name x = field_name g) (fields_of E c') = Some g)"

text \<open>
  Every declared field of the object can be read: it is an attribute of the object, as
  after \<^verbatim>\<open>__init__\<close>, or at least of its class.
\<close>

definition attrs_ok :: "env \<Rightarrow> heap \<Rightarrow> addr \<Rightarrow> bool" where
  "attrs_ok E h p =
     (\<forall>f \<in> set (fields_of E (class_name (h p))).
        inst_dict (h p) (field_name f) \<noteq> None \<or>
        class_attr E (class_name (h p)) (field_name f) \<noteq> None)"

text \<open>The class declares a field of this name, of kind \<^verbatim>\<open>LIST\<close>.\<close>

definition list_field :: "env \<Rightarrow> string \<Rightarrow> string \<Rightarrow> bool" where
  "list_field E c n =
     (case find (\<lambda>f. field_name f = n) (fields_of E c) of
        None \<Rightarrow> False
      | Some f \<Rightarrow> field_type (field_description f) = LIST)"

section \<open>An example schema\<close>

text \<open>
  Three classes as the decorator would register them: a \<^verbatim>\<open>User\<close> has many \<^verbatim>\<open>Post\<close>s
  (\<^verbatim>\<open>Post.author\<close> is the local key, \<^verbatim>\<open>User.posts\<close> the list on the other side),
  one \<^verbatim>\<open>Profile\<close> (\<^verbatim>\<open>Profile.user\<close> is the local key, \<^verbatim>\<open>User.profile\<close> the single
  instance on the other side) and many friends, who are users (\<^verbatim>\<open>User.friends\<close> is a
  list on both sides).
\<close>

definition mk_field :: "string \<Rightarrow> FieldType \<Rightarrow> FieldStorage \<Rightarrow> Field" where
  "mk_field n t s = \<lparr>field_name = n, field_description = \<lparr>field_type = t, field_storage = s\<rparr>\<rparr>"

definition blog_fields :: "string \<Rightarrow> Field list" where
  "blog_fields c =
     (if c = ''User'' then
        [mk_field ''name'' SCALAR PLAIN,
         mk_field ''posts'' LIST FOREIGN_KEY,
         mk_field ''profile'' INSTANCE FOREIGN_KEY,
         mk_field ''friends'' LIST FOREIGN_KEY]
      else if c = ''Post'' then
        [mk_field ''title'' SCALAR PLAIN,
         mk_field ''author'' INSTANCE LOCAL_KEY]
      else if c = ''Profile'' then
        [mk_field ''user'' INSTANCE LOCAL_KEY]
      else [])"

definition blog_other_field :: "string \<Rightarrow> string \<Rightarrow> Field \<Rightarrow> Field option" where
  "blog_other_field c c' f =
     (if c = ''Post'' \<and> c' = ''User'' \<and> field_name f = ''author'' then
        Some (mk_field ''posts'' LIST FOREIGN_KEY)
      else if c = ''User'' \<and> c' = ''Post'' \<and> field_name f = ''posts'' then
        Some (mk_field ''author'' INSTANCE LOCAL_KEY)
      else if c = ''Profile'' \<and> c' = ''User'' \<and> field_name f = ''user'' then
        Some (mk_field ''profile'' INSTANCE FOREIGN_KEY)
      else if c = ''User'' \<and> c' = ''Profile'' \<and> field_name f = ''profile'' then
        Some (mk_field ''user'' INSTANCE LOCAL_KEY)
      else if c = ''User'' \<and> c' = ''User'' \<and> field_name f = ''friends'' then
        Some (mk_field ''friends'' LIST FOREIGN_KEY)
      else None)"

text \<open>
  Each field of the example classes is declared with a default, the marker of its type,
  which stays an attribute of the class.
\<close>

definition blog_class_attr :: "string \<Rightarrow> string \<Rightarrow> val option" where
  "blog_class_attr c n =
     (if n \<in> set (map field_name (blog_fields c)) then Some (VObject ''types'') else None)"

definition blog_attr :: "heap \<Rightarrow> addr \<Rightarrow> string \<Rightarrow> val" where
  "blog_attr h p n =
     (case inst_dict (h p) n of Some v \<Rightarrow> v | None \<Rightarrow> VObject ''types'')"

text \<open>
  The generated \<^verbatim>\<open>__eq__\<close> of the example classes and the \<^verbatim>\<open>==\<close> of the values their
  fields hold. Two instances of a class are compared field by field, in the order of the
  fields; two lists, owned or not, element by element when they are of the same length;
  two dicts, owned or not, of the same length, value by value in the order of the keys
  of the first, up to the first of its keys that the second does not have; everything is
  equal to itself, and the comparison stops at the first pair that differs or raises.
  What is left to compare after one look at the two values: nothing, or some pairs, or
  some pairs with the answer \<^verbatim>\<open>False\<close> after them.
\<close>

datatype comparison =
  Decided bool | Pairwise "(val \<times> val) list" | Unequal_after "(val \<times> val) list"

fun dict_compare ::
  "(string \<times> val) list \<Rightarrow> (string \<times> val) list \<Rightarrow> (val \<times> val) list \<Rightarrow> comparison" where
  "dict_compare [] ys ps = Pairwise ps"
| "dict_compare ((k, v) # xs) ys ps =
     (case map_of ys k of
        None \<Rightarrow> Unequal_after ps
      | Some w \<Rightarrow> dict_compare xs ys (ps @ [(v, w)]))"

fun inst_of :: "val \<Rightarrow> addr option" where
  "inst_of (VInst p) = Some p"
| "inst_of _ = None"

text \<open>A \<^verbatim>\<open>bool\<close> is an \<^verbatim>\<open>int\<close>: \<^verbatim>\<open>True == 1\<close>.\<close>

fun int_of :: "val \<Rightarrow> int option" where
  "int_of (VInt i) = Some i"
| "int_of (VBool b) = Some (if b then 1 else 0)"
| "int_of _ = None"

definition blog_compare :: "heap \<Rightarrow> val \<Rightarrow> val \<Rightarrow> comparison" where
  "blog_compare h x y =
     (case (inst_of x, inst_of y) of
        (Some p, Some q) \<Rightarrow>
          if p = q then Decided True
          else if class_name (h p) \<noteq> class_name (h q) then Decided False
          else Pairwise (map (\<lambda>n. (blog_attr h p n, blog_attr h q n))
                           (map field_name (blog_fields (class_name (h p)))))
      | _ \<Rightarrow>
          if isinstance_list x \<and> isinstance_list y then
            (if length (list_items x) \<noteq> length (list_items y) then Decided False
             else Pairwise (zip (list_items x) (list_items y)))
          else if isinstance_dict x \<and> isinstance_dict y then
            (if length (dict_items x) \<noteq> length (dict_items y) then Decided False
             else dict_compare (dict_items x) (dict_items y) [])
          else
            (case (int_of x, int_of y) of
               (Some i, Some j) \<Rightarrow> Decided (i = j)
             | _ \<Rightarrow> Decided (x = y)))"

fun all_equal :: "(exn + bool) list \<Rightarrow> exn + bool" where
  "all_equal [] = Inr True"
| "all_equal (Inl e # rs) = Inl e"
| "all_equal (Inr b # rs) = (if b then all_equal rs else Inr False)"

text \<open>
  The comparison goes into the pairs that are left, as deep as the interpreter lets a
  call nest; beyond that depth it raises \<^verbatim>\<open>RecursionError\<close>.
\<close>

fun blog_eq :: "nat \<Rightarrow> heap \<Rightarrow> val \<Rightarrow> val \<Rightarrow> exn + bool" where
  "blog_eq 0 h x y =
     (case blog_compare h x y of
        Decided b \<Rightarrow> Inr b
      | Pairwise ps \<Rightarrow> Inl RecursionError
      | Unequal_after ps \<Rightarrow> Inl RecursionError)"
| "blog_eq (Suc d) h x y =
     (case blog_compare h x y of
        Decided b \<Rightarrow> Inr b
      | Pairwise ps \<Rightarrow> all_equal (map (\<lambda>(a, b). blog_eq d h a b) ps)
      | Unequal_after ps \<Rightarrow> all_equal (map (\<lambda>(a, b). blog_eq d h a b) ps @ [Inr False]))"

text \<open>The recursion limit of the interpreter, as it is when nothing sets it.\<close>

definition recursion_limit :: nat where
  "recursion_limit = 1000"

definition blog_instance_eq :: "heap \<Rightarrow> addr \<Rightarrow> addr \<Rightarrow> exn + bool" where
  "blog_instance_eq h p q = blog_eq recursion_limit h (VInst p) (VInst q)"

definition blog_config :: "string \<Rightarrow> Config" where
  "blog_config c =
     \<lparr>class_graph = ''default'', camelize_json_keys = True, camelize_db_keys = True,
      linked_class = c\<rparr>"

text \<open>
  A stand-in for \<^verbatim>\<open>InstanceOfValidator\<close>: a \<^verbatim>\<open>User\<close> is valid when its \<^verbatim>\<open>name\<close> is a
  string, every other object is valid; transforming assigns nothing and serialising
  gives an empty \<^verbatim>\<open>dict\<close>.
\<close>

definition blog_validate :: "string \<Rightarrow> call_context \<Rightarrow> heap \<Rightarrow> unit outcome" where
  "blog_validate c ctx h =
     (if c = ''User'' then
        (case map_of ctx ''value'' of
           Some (AObj p) \<Rightarrow>
             (case inst_dict (h p) ''name'' of
                Some (VStr _) \<Rightarrow> Return () h
              | _ \<Rightarrow> Raise (ValidationException ''name'') h)
         | _ \<Rightarrow> Raise (OtherException ''value'') h)
      else Return () h)"

definition blog :: env where
  "blog =
     \<lparr>fields_of = blog_fields,
      other_field = blog_other_field,
      instance_eq = blog_instance_eq,
      class_attr = blog_class_attr,
      set_order = (\<lambda>ks. ks),
      dataclass_fields = (\<lambda>c. map field_name (blog_fields c)),
      config = blog_config,
      validator_transform = (\<lambda>c ctx h. Return () h),
      validator_validate = blog_validate,
      validator_tojson = (\<lambda>c ctx h. Return (VDict []) h)\<rparr>"

text \<open>A new object of a class, every field \<^verbatim>\<open>None\<close>, as \<^verbatim>\<open>__init__\<close> leaves it.\<close>

definition new_object :: "string \<Rightarrow> jsonobject" where
  "new_object c =
     \<lparr>class_name = c,
      inst_dict = map_of (map (\<lambda>f. (field_name f, VNone)) (blog_fields c))\<rparr>"

definition new_post :: "string \<Rightarrow> jsonobject" where
  "new_post t =
     \<lparr>class_name = ''Post'',
      inst_dict = (inst_dict (new_object ''Post''))(''title'' \<mapsto> VStr t)\<rparr>"

text \<open>
  The example store: users 1 and 5, profiles 4 and 6, posts 2, 3 and 7, of which 2 and 7
  have the same title.
\<close>

definition heap0 :: heap where
  "heap0 =
     (\<lambda>_. \<lparr>class_name = ''object'', inst_dict = Map.empty\<rparr>)
       (1 := new_object ''User'',
        2 := new_post ''first'',
        3 := new_post ''second'',
        4 := new_object ''Profile'',
        5 := new_object ''User'',
        6 := new_object ''Profile'',
        7 := new_post ''first'')"

text \<open>The store after \<^verbatim>\<open>post2.author = user1\<close>.\<close>

definition heap1 :: heap where
  "heap1 =
     super_setattr (super_setattr heap0 2 ''author'' (VInst 1))
       1 ''posts'' (OwnedList 1 ''posts'' [VInst 2])"

text \<open>The store after \<^verbatim>\<open>post3.author = user1\<close> on top of that.\<close>

definition heap2 :: heap where
  "heap2 =
     super_setattr (super_setattr heap1 3 ''author'' (VInst 1))
       1 ''posts'' (OwnedList 1 ''posts'' [VInst 2, VInst 3])"

text \<open>
  The example store after \<^verbatim>\<open>post2.note = 1\<close>: an attribute that is no field of \<^verbatim>\<open>Post\<close>.
\<close>

definition heap_note :: heap where
  "heap_note = super_setattr heap0 2 ''note'' (VInt 1)"

text \<open>The store after \<^verbatim>\<open>profile4.user = user1\<close>.\<close>

definition heap_pair :: heap where
  "heap_pair =
     super_setattr (super_setattr heap0 4 ''user'' (VInst 1)) 1 ''profile'' (VInst 4)"

text \<open>
  The stores after \<^verbatim>\<open>profile6.user = user1\<close>, then \<^verbatim>\<open>profile4.user = user5\<close>, then
  \<^verbatim>\<open>user5.profile = profile6\<close>.
\<close>

definition heap_ring1 :: heap where
  "heap_ring1 =
     super_setattr (super_setattr heap0 6 ''user'' (VInst 1)) 1 ''profile'' (VInst 6)"

definition heap_ring2 :: heap where
  "heap_ring2 =
     super_setattr (super_setattr heap_ring1 4 ''user'' (VInst 5)) 5 ''profile'' (VInst 4)"

definition heap_ring :: heap where
  "heap_ring = super_setattr heap_ring2 5 ''profile'' (VInst 6)"

text \<open>The store after \<^verbatim>\<open>user1.posts = [post2, post2]\<close>.\<close>

definition heap_dup :: heap where
  "heap_dup = super_setattr heap0 1 ''posts'' (OwnedList 1 ''posts'' [VInst 2, VInst 2])"

text \<open>
  The stores after \<^verbatim>\<open>post7.author = user5\<close>, then \<^verbatim>\<open>user5.posts = [post2]\<close>, then
  \<^verbatim>\<open>user1.posts = [post7]\<close>.
\<close>

definition heap_loop1 :: heap where
  "heap_loop1 =
     super_setattr (super_setattr heap0 7 ''author'' (VInst 5))
       5 ''posts'' (OwnedList 5 ''posts'' [VInst 7])"

definition heap_loop2 :: heap where
  "heap_loop2 = super_setattr heap_loop1 5 ''posts'' (OwnedList 5 ''posts'' [VInst 2])"

definition heap_loop :: heap where
  "heap_loop = super_setattr heap_loop2 1 ''posts'' (OwnedList 1 ''posts'' [VInst 7])"

text \<open>The store after \<^verbatim>\<open>user1.friends = user5\<close>.\<close>

definition heap_friend :: heap where
  "heap_friend =
     super_setattr (super_setattr heap0 1 ''friends'' (VInst 5))
       5 ''friends'' (OwnedList 5 ''friends'' [VInst 1])"

section \<open>Facts about the attribute hook\<close>

lemma setattr_Suc:
  "setattr (Suc d) E h self name value =
     (case hook_step E h self name value of
        Finish r \<Rightarrow> Some r
      | Again h1 v n x \<Rightarrow> setattr d E h1 v n x)"
  by (simp add: hook_step_def Let_def split: val.splits option.splits sum.splits)

declare setattr.simps(2) [simp del]

lemma setattr_mono:
  "setattr d E h self name value = Some r \<Longrightarrow> setattr (Suc d) E h self name value = Some r"
proof (induction d arbitrary: h self name "value")
  case 0
  then show ?case by simp
next
  case (Suc d)
  show ?case
  proof (cases "hook_step E h self name value")
    case (Finish r')
    with Suc.prems show ?thesis by (simp only: setattr_Suc step.case)
  next
    case (Again h1 v n x)
    with Suc.prems have "setattr d E h1 v n x = Some r" by (simp only: setattr_Suc step.case)
    from Suc.IH[OF this] Again show ?thesis by (simp only: setattr_Suc[of "Suc d"] step.case)
  qed
qed

lemma setattr_mono_le:
  "d \<le> d' \<Longrightarrow> setattr d E h self name value = Some r \<Longrightarrow> setattr d' E h self name value = Some r"
proof (induction d')
  case 0
  then show ?case by simp
next
  case (Suc d')
  show ?case
  proof (cases "d = Suc d'")
    case True
    with Suc.prems show ?thesis by simp
  next
    case False
    with Suc.prems have "d \<le> d'" by simp
    from setattr_mono[OF Suc.IH[OF this Suc.prems(2)]] show ?thesis .
  qed
qed

lemma class_name_super_setattr [simp]:
  "class_name (super_setattr h self name v p) = class_name (h p)"
  by (simp add: super_setattr_def)

lemma inst_dict_super_setattr:
  "inst_dict (super_setattr h self name v p) n =
     (if p = self \<and> n = name then Some v else inst_dict (h p) n)"
  by (simp add: super_setattr_def)

lemma declared_super_setattr [simp]:
  "declared E (super_setattr h self name v) p = declared E h p"
  by (simp add: declared_def)

lemma getattr_inst_dict:
  "inst_dict (h p) n = Some v \<Longrightarrow> getattr E h p n = Inr v"
  by (simp add: getattr_def)

lemma getattr_super_setattr_same:
  "getattr E (super_setattr h self name x) self name = Inr x"
  by (simp add: getattr_def inst_dict_super_setattr)

lemma getattr_super_setattr_other:
  "p \<noteq> self \<or> n \<noteq> name \<Longrightarrow> getattr E (super_setattr h self name x) p n = getattr E h p n"
  by (auto simp: getattr_def inst_dict_super_setattr split: option.splits)

lemma py_eq_self [simp]: "py_eq E h (VInst a) a = Inr True"
  by simp

lemma py_eq_raises:
  "py_eq E h v a = Inl e \<Longrightarrow> \<exists>p. instance_eq E h p a = Inl e"
  by (cases v) (auto split: if_splits)

lemma py_in_raises:
  "py_in E h a xs = Inl e \<Longrightarrow> \<exists>p. instance_eq E h p a = Inl e"
  by (induction xs) (auto split: sum.splits if_splits dest: py_eq_raises)

lemma py_in_self: "VInst a \<in> set xs \<Longrightarrow> py_in E h a xs \<noteq> Inr False"
  by (induction xs) (auto split: sum.splits)

lemma py_in_False:
  "py_in E h a xs = Inr False \<longleftrightarrow> (\<forall>x\<in>set xs. py_eq E h x a = Inr False)"
  by (induction xs) (auto split: sum.splits)

lemma hook_step_Again:
  assumes "hook_step E h self name value = Again h1 v n x"
  shows "\<exists>sfield ofield cur. value = VInst v \<and> h1 = super_setattr h self name value \<and>
           find (\<lambda>f. field_name f = name) (fields_of E (class_name (h self))) = Some sfield \<and>
           other_field E (class_name (h self)) (class_name (h v)) sfield = Some ofield \<and>
           n = field_name ofield \<and> getattr E h1 v n = Inr cur \<and>
           ((field_type (field_description ofield) = INSTANCE \<and> py_eq E h1 cur self = Inr False \<and>
             x = VInst self) \<or>
            (field_type (field_description ofield) = LIST \<and> \<not> isinstance_list cur \<and>
             x = VList [VInst self]))"
proof -
  from assms obtain y where y: "value = VInst y"
    by (cases "value") (auto simp: hook_step_def Let_def split: if_splits)
  from assms y obtain sfield where
    sf: "find (\<lambda>f. field_name f = name) (fields_of E (class_name (h self))) = Some sfield"
    by (auto simp: hook_step_def Let_def split: option.splits)
  from assms y sf obtain ofield where
    ofl: "other_field E (class_name (h self)) (class_name (h y)) sfield = Some ofield"
    by (auto simp: hook_step_def Let_def split: option.splits if_splits)
  from assms y sf ofl obtain cur where
    cur: "getattr E (super_setattr h self name value) y (field_name ofield) = Inr cur"
    by (auto simp: hook_step_def Let_def split: option.splits if_splits sum.splits)
  from assms y sf ofl cur show ?thesis
    by (auto simp: hook_step_def Let_def split: if_splits sum.splits)
qed

lemma hook_step_undeclared:
  "find (\<lambda>f. field_name f = name) (fields_of E (class_name (h self))) = None \<Longrightarrow>
   hook_step E h self name (VInst y) = Finish (Raise StopIteration (super_setattr h self name (VInst y)))"
  by (simp add: hook_step_def)

lemma hook_step_list:
  "isinstance_list value \<Longrightarrow>
   hook_step E h self name value =
     Finish (Return () (super_setattr h self name (OwnedList self name (list_items value))))"
  by (simp add: hook_step_def)

lemma hook_step_dict:
  "\<not> isinstance_list value \<Longrightarrow> isinstance_dict value \<Longrightarrow>
   hook_step E h self name value =
     Finish (Return () (super_setattr h self name (OwnedDict self name (dict_items value))))"
  by (simp add: hook_step_def)

lemma hook_step_plain:
  "\<not> isinstance_list value \<Longrightarrow> \<not> isinstance_dict value \<Longrightarrow> \<forall>v. value \<noteq> VInst v \<Longrightarrow>
   hook_step E h self name value = Finish (Return () (super_setattr h self name value))"
  by (cases "value") (simp_all add: hook_step_def)

lemma hook_step_not_instance:
  "\<forall>v. value \<noteq> VInst v \<Longrightarrow> \<exists>r. hook_step E h self name value = Finish r"
  by (cases "isinstance_list value"; cases "isinstance_dict value")
    (simp_all add: hook_step_list hook_step_dict hook_step_plain)

lemma length_filter_le_mono:
  "(\<And>n. n \<in> set L \<Longrightarrow> P' n \<Longrightarrow> P n) \<Longrightarrow> length (filter P' L) \<le> length (filter P L)"
  by (induction L) auto

lemma length_filter_less:
  "(\<And>n. n \<in> set L \<Longrightarrow> P' n \<Longrightarrow> P n) \<Longrightarrow> m \<in> set L \<Longrightarrow> P m \<Longrightarrow> \<not> P' m \<Longrightarrow>
   length (filter P' L) < length (filter P L)"
proof (induction L)
  case Nil
  then show ?case by simp
next
  case (Cons a L)
  have le: "length (filter P' L) \<le> length (filter P L)"
    using Cons.prems(1) by (intro length_filter_le_mono) auto
  show ?case
  proof (cases "m = a")
    case True
    with Cons.prems le show ?thesis by simp
  next
    case False
    with Cons.prems have "m \<in> set L" by simp
    from Cons.IH[OF _ this Cons.prems(3,4)] Cons.prems(1)
    have "length (filter P' L) < length (filter P L)" by simp
    with Cons.prems(1)[of a] show ?thesis by auto
  qed
qed

lemma pending_decreases:
  assumes "n \<in> set (declared E h y)" "inst_dict (h y) n \<noteq> Some (VInst x)"
  shows "pending E (super_setattr h y n (VInst x)) y x < pending E h x y"
proof -
  let ?h' = "super_setattr h y n (VInst x)"
  have a: "length (filter (\<lambda>k. inst_dict (?h' y) k \<noteq> Some (VInst x)) (declared E h y))
           < length (filter (\<lambda>k. inst_dict (h y) k \<noteq> Some (VInst x)) (declared E h y))"
    using assms
    by (intro length_filter_less[where m = n]) (auto simp: inst_dict_super_setattr split: if_splits)
  have b: "length (filter (\<lambda>k. inst_dict (?h' x) k \<noteq> Some (VInst y)) (declared E h x))
           \<le> length (filter (\<lambda>k. inst_dict (h x) k \<noteq> Some (VInst y)) (declared E h x))"
    by (intro length_filter_le_mono) (auto simp: inst_dict_super_setattr split: if_splits)
  from a b show ?thesis by (simp add: pending_def)
qed

lemma find_None_declared:
  "find (\<lambda>f. field_name f = n) (fields_of E (class_name (h p))) \<noteq> None \<Longrightarrow> n \<in> set (declared E h p)"
  by (auto simp: declared_def find_None_iff)

lemma setattr_instance_terminates:
  "pending E (super_setattr h x m (VInst y)) x y \<le> k \<Longrightarrow>
   \<exists>r. setattr (Suc (Suc k)) E h x m (VInst y) = Some r"
proof (induction k arbitrary: h x m y rule: less_induct)
  case (less k)
  let ?h1 = "super_setattr h x m (VInst y)"
  show ?case
  proof (cases "hook_step E h x m (VInst y)")
    case (Finish r)
    then show ?thesis by (simp only: setattr_Suc step.case) simp
  next
    case (Again h1 v n xv)
    from hook_step_Again[OF Again] obtain cur where
      v: "v = y" and h1: "h1 = ?h1" and cur: "getattr E h1 y n = Inr cur" and
      alt: "(py_eq E h1 cur x = Inr False \<and> xv = VInst x) \<or> xv = VList [VInst x]"
      by auto
    from alt show ?thesis
    proof
      assume "xv = VList [VInst x]"
      then have "\<exists>r. setattr (Suc k) E h1 y n xv = Some r"
        by (simp only: setattr_Suc hook_step_list isinstance_list.simps step.case) simp
      with Again v show ?thesis by (simp only: setattr_Suc[of "Suc k"] step.case)
    next
      assume inst: "py_eq E h1 cur x = Inr False \<and> xv = VInst x"
      have bad: "inst_dict (h1 y) n \<noteq> Some (VInst x)"
      proof
        assume "inst_dict (h1 y) n = Some (VInst x)"
        then have "getattr E h1 y n = Inr (VInst x)" by (rule getattr_inst_dict)
        with cur have "cur = VInst x" by simp
        with inst show False by simp
      qed
      show ?thesis
      proof (cases "find (\<lambda>f. field_name f = n) (fields_of E (class_name (h1 y)))")
        case None
        then have "\<exists>r. setattr (Suc k) E h1 y n (VInst x) = Some r"
          by (simp only: setattr_Suc hook_step_undeclared step.case) simp
        with Again v inst show ?thesis by (simp only: setattr_Suc[of "Suc k"] step.case)
      next
        case (Some f)
        then have "n \<in> set (declared E h1 y)" by (intro find_None_declared) simp
        from pending_decreases[OF this bad] less.prems h1
        have lt: "pending E (super_setattr h1 y n (VInst x)) y x < k" by simp
        then obtain k' where k: "k = Suc k'" by (cases k) auto
        with lt have "pending E (super_setattr h1 y n (VInst x)) y x \<le> k'" by simp
        from less.IH[OF _ this] k
        have "\<exists>r. setattr (Suc k) E h1 y n (VInst x) = Some r" by simp
        with Again v inst show ?thesis by (simp only: setattr_Suc[of "Suc k"] step.case)
      qed
    qed
  qed
qed

lemma pending_le:
  "pending E h x y \<le>
     length (fields_of E (class_name (h x))) + length (fields_of E (class_name (h y)))"
proof -
  have "length (filter P (declared E h p)) \<le> length (fields_of E (class_name (h p)))" for P p
    using length_filter_le[of P "declared E h p"] by (simp add: declared_def)
  from add_mono[OF this this] show ?thesis unfolding pending_def .
qed

lemma setattr_terminates:
  "\<exists>r. \<forall>d \<ge> length (fields_of E (class_name (h self))) + 2 +
            (case x of VInst v \<Rightarrow> length (fields_of E (class_name (h v))) | _ \<Rightarrow> 0).
         setattr d E h self name x = Some r"
proof (cases "\<exists>v. x = VInst v")
  case True
  then obtain v where v: "x = VInst v" by blast
  let ?k = "length (fields_of E (class_name (h self))) + length (fields_of E (class_name (h v)))"
  have "pending E (super_setattr h self name (VInst v)) self v \<le> ?k"
    using pending_le[of E "super_setattr h self name (VInst v)" self v] by simp
  from setattr_instance_terminates[OF this] obtain r where
    "setattr (Suc (Suc ?k)) E h self name (VInst v) = Some r" by blast
  from setattr_mono_le[OF _ this] v show ?thesis
    by (intro exI[of _ r]) (simp add: add.commute add.left_commute)
next
  case False
  then obtain r where "hook_step E h self name x = Finish r"
    using hook_step_not_instance by blast
  then have "setattr (Suc 0) E h self name x = Some r" by (simp add: setattr_Suc)
  from setattr_mono_le[OF _ this] show ?thesis by (intro exI[of _ r]) simp
qed

lemma wf_envD:
  "wf_env E \<Longrightarrow> other_field E c c' f = Some g \<Longrightarrow>
   find (\<lambda>x. field_name x = field_name g) (fields_of E c') = Some g"
  by (simp add: wf_env_def)

lemma attrs_ok_super_setattr:
  "attrs_ok E h p \<Longrightarrow> attrs_ok E (super_setattr h self name v) p"
  by (auto simp: attrs_ok_def inst_dict_super_setattr)

lemma attrs_ok_getattr:
  "attrs_ok E h p \<Longrightarrow> f \<in> set (fields_of E (class_name (h p))) \<Longrightarrow>
   \<exists>v. getattr E h p (field_name f) = Inr v"
  by (auto simp: attrs_ok_def getattr_def split: option.splits)

lemma hook_step_Finish:
  assumes "hook_step E h x m (VInst y) = Finish r"
  shows "heap_of r = super_setattr h x m (VInst y) \<or>
         (\<exists>sfield ofield cur.
            find (\<lambda>f. field_name f = m) (fields_of E (class_name (h x))) = Some sfield \<and>
            other_field E (class_name (h x)) (class_name (h y)) sfield = Some ofield \<and>
            field_type (field_description ofield) = LIST \<and>
            getattr E (super_setattr h x m (VInst y)) y (field_name ofield) = Inr cur \<and>
            isinstance_list cur \<and>
            r = Return () (super_setattr (super_setattr h x m (VInst y)) y (field_name ofield)
                             (list_append cur (VInst x))))"
  using assms
  by (auto simp: hook_step_def Let_def split: if_splits option.splits sum.splits)

lemma hook_step_Raise_guard:
  assumes "hook_step E h x m (VInst y) = Finish (Raise e h')"
  shows "(find (\<lambda>f. field_name f = m) (fields_of E (class_name (h x))) = None \<and> e = StopIteration) \<or>
         (\<exists>sfield ofield.
            find (\<lambda>f. field_name f = m) (fields_of E (class_name (h x))) = Some sfield \<and>
            other_field E (class_name (h x)) (class_name (h y)) sfield = Some ofield \<and>
            getattr E (super_setattr h x m (VInst y)) y (field_name ofield) = Inl e) \<or>
         (\<exists>cur. py_eq E (super_setattr h x m (VInst y)) cur x = Inl e) \<or>
         (\<exists>xs. py_in E (super_setattr h x m (VInst y)) x xs = Inl e)"
  using assms
  by (auto simp: hook_step_def Let_def split: if_splits option.splits sum.splits)

lemma hook_step_Raise:
  assumes "hook_step E h x m (VInst y) = Finish (Raise e h')"
  shows "(find (\<lambda>f. field_name f = m) (fields_of E (class_name (h x))) = None \<and> e = StopIteration) \<or>
         (\<exists>sfield ofield.
            find (\<lambda>f. field_name f = m) (fields_of E (class_name (h x))) = Some sfield \<and>
            other_field E (class_name (h x)) (class_name (h y)) sfield = Some ofield \<and>
            getattr E (super_setattr h x m (VInst y)) y (field_name ofield) = Inl e) \<or>
         (\<exists>hh p q. instance_eq E hh p q = Inl e)"
  using hook_step_Raise_guard[OF assms] py_eq_raises py_in_raises by blast

lemma setattr_list:
  "isinstance_list value \<Longrightarrow> setattr d E h self name value = Some r \<Longrightarrow>
   r = Return () (super_setattr h self name (OwnedList self name (list_items value)))"
  by (cases d) (simp_all add: setattr_Suc hook_step_list)

lemma setattr_list_value:
  "isinstance_list value \<Longrightarrow>
   setattr (Suc d) E h self name value =
     Some (Return () (super_setattr h self name (OwnedList self name (list_items value))))"
  by (simp add: setattr_Suc hook_step_list)

lemma list_field_inverse:
  assumes "wf_env E" "other_field E c c' f = Some g" "field_type (field_description g) = LIST"
  shows "list_field E c' (field_name g)"
  using wf_envD[OF assms(1,2)] assms(3) by (simp add: list_field_def)

lemma setattr_keeps_link:
  assumes wf: "wf_env E" and nl: "\<not> list_field E c n"
  shows "setattr d E h x m (VInst y) = Some r \<Longrightarrow>
         (x = s \<longrightarrow> y = v) \<Longrightarrow> (y = s \<longrightarrow> x = v) \<Longrightarrow>
         inst_dict (h s) n = Some (VInst v) \<or> (x = s \<and> m = n) \<Longrightarrow>
         class_name (h s) = c \<Longrightarrow>
         inst_dict (heap_of r s) n = Some (VInst v)"
proof (induction d arbitrary: h x m y)
  case 0
  then show ?case by simp
next
  case (Suc d)
  let ?h1 = "super_setattr h x m (VInst y)"
  have inv1: "inst_dict (?h1 s) n = Some (VInst v)"
    using Suc.prems(2,4) by (auto simp: inst_dict_super_setattr)
  have key: "\<not> (y = s \<and> field_name g = n)"
    if "other_field E (class_name (h x)) (class_name (h y)) f = Some g"
      and "field_type (field_description g) = LIST" for f g
    using list_field_inverse[OF wf that] nl Suc.prems(5) by auto
  show ?case
  proof (cases "hook_step E h x m (VInst y)")
    case (Finish r')
    with Suc.prems(1) have r: "r = r'" by (simp add: setattr_Suc)
    from hook_step_Finish[OF Finish] show ?thesis
    proof
      assume "heap_of r' = ?h1"
      with r inv1 show ?thesis by simp
    next
      assume "\<exists>sfield ofield cur.
            find (\<lambda>f. field_name f = m) (fields_of E (class_name (h x))) = Some sfield \<and>
            other_field E (class_name (h x)) (class_name (h y)) sfield = Some ofield \<and>
            field_type (field_description ofield) = LIST \<and>
            getattr E ?h1 y (field_name ofield) = Inr cur \<and>
            isinstance_list cur \<and>
            r' = Return () (super_setattr ?h1 y (field_name ofield) (list_append cur (VInst x)))"
      then obtain sfield ofield cur where
        o: "other_field E (class_name (h x)) (class_name (h y)) sfield = Some ofield"
        and l: "field_type (field_description ofield) = LIST"
        and r': "r' = Return () (super_setattr ?h1 y (field_name ofield) (list_append cur (VInst x)))"
        by blast
      from key[OF o l] r r' inv1 show ?thesis by (auto simp: inst_dict_super_setattr)
    qed
  next
    case (Again h1 v' n' xv)
    from hook_step_Again[OF Again] obtain sfield ofield where
      v': "v' = y" and h1: "h1 = ?h1"
      and o: "other_field E (class_name (h x)) (class_name (h y)) sfield = Some ofield"
      and n': "n' = field_name ofield"
      and alt: "(field_type (field_description ofield) = INSTANCE \<and> xv = VInst x) \<or>
                (field_type (field_description ofield) = LIST \<and> xv = VList [VInst x])"
      by blast
    from Again Suc.prems(1) v' h1 have nested: "setattr d E ?h1 y n' xv = Some r"
      by (simp add: setattr_Suc)
    from alt show ?thesis
    proof
      assume "field_type (field_description ofield) = INSTANCE \<and> xv = VInst x"
      with nested have "setattr d E ?h1 y n' (VInst x) = Some r" by simp
      from Suc.IH[OF this Suc.prems(3) Suc.prems(2)] inv1 Suc.prems(5) show ?thesis by simp
    next
      assume a: "field_type (field_description ofield) = LIST \<and> xv = VList [VInst x]"
      with nested setattr_list[of xv d E ?h1 y n' r]
      have "r = Return () (super_setattr ?h1 y n' (OwnedList y n' (list_items xv)))" by simp
      with key[OF o] a n' inv1 show ?thesis by (auto simp: inst_dict_super_setattr)
    qed
  qed
qed

lemma setattr_raises_comparison:
  assumes wf: "wf_env E"
  shows "setattr d E h x m (VInst y) = Some (Raise e h') \<Longrightarrow> attrs_ok E h x \<Longrightarrow> attrs_ok E h y \<Longrightarrow>
         find (\<lambda>f. field_name f = m) (fields_of E (class_name (h x))) \<noteq> None \<Longrightarrow>
         \<exists>hh p q. instance_eq E hh p q = Inl e"
proof (induction d arbitrary: h x m y)
  case 0
  then show ?case by simp
next
  case (Suc d)
  let ?h1 = "super_setattr h x m (VInst y)"
  have okx: "attrs_ok E ?h1 x" and oky: "attrs_ok E ?h1 y"
    using Suc.prems(2,3) by (auto intro: attrs_ok_super_setattr)
  have has: "getattr E ?h1 y (field_name g) \<noteq> Inl e"
    if "other_field E (class_name (h x)) (class_name (h y)) f = Some g" for f g
  proof -
    from wf_envD[OF wf that] have "g \<in> set (fields_of E (class_name (?h1 y)))"
      by (auto dest: find_Some_iff[THEN iffD1] simp: in_set_conv_nth)
    from attrs_ok_getattr[OF oky this] show ?thesis by auto
  qed
  show ?case
  proof (cases "hook_step E h x m (VInst y)")
    case (Finish r')
    with Suc.prems(1) have r: "r' = Raise e h'" by (simp add: setattr_Suc)
    from hook_step_Raise[OF Finish[unfolded r]] Suc.prems(4) has
    show ?thesis by blast
  next
    case (Again h1 v' n' xv)
    from hook_step_Again[OF Again] obtain sfield ofield where
      v': "v' = y" and h1: "h1 = ?h1"
      and o: "other_field E (class_name (h x)) (class_name (h y)) sfield = Some ofield"
      and n': "n' = field_name ofield"
      and alt: "xv = VInst x \<or> xv = VList [VInst x]"
      by blast
    from Again Suc.prems(1) v' h1 have nested: "setattr d E ?h1 y n' xv = Some (Raise e h')"
      by (simp add: setattr_Suc)
    from alt show ?thesis
    proof
      assume "xv = VInst x"
      with nested have n: "setattr d E ?h1 y n' (VInst x) = Some (Raise e h')" by simp
      from wf_envD[OF wf o] n'
      have "find (\<lambda>f. field_name f = n') (fields_of E (class_name (?h1 y))) \<noteq> None" by simp
      from Suc.IH[OF n oky okx this] show ?thesis .
    next
      assume "xv = VList [VInst x]"
      with nested setattr_list[of xv d E ?h1 y n' "Raise e h'"] show ?thesis by simp
    qed
  qed
qed

lemma setattr_keeps_or_wraps:
  "setattr d E h x m (VInst y) = Some r \<Longrightarrow>
   (x = s \<longrightarrow> y = v) \<Longrightarrow> (y = s \<longrightarrow> x = v) \<Longrightarrow>
   inst_dict (h s) n = Some (VInst v) \<or> (x = s \<and> m = n) \<Longrightarrow>
   inst_dict (heap_of r s) n = Some (VInst v) \<or>
   inst_dict (heap_of r s) n = Some (OwnedList s n [VInst v])"
proof (induction d arbitrary: h x m y)
  case 0
  then show ?case by simp
next
  case (Suc d)
  let ?h1 = "super_setattr h x m (VInst y)"
  have inv1: "inst_dict (?h1 s) n = Some (VInst v)"
    using Suc.prems(2,4) by (auto simp: inst_dict_super_setattr)
  show ?case
  proof (cases "hook_step E h x m (VInst y)")
    case (Finish r')
    with Suc.prems(1) have r: "r = r'" by (simp add: setattr_Suc)
    from hook_step_Finish[OF Finish] show ?thesis
    proof
      assume "heap_of r' = ?h1"
      with r inv1 show ?thesis by simp
    next
      assume "\<exists>sfield ofield cur.
            find (\<lambda>f. field_name f = m) (fields_of E (class_name (h x))) = Some sfield \<and>
            other_field E (class_name (h x)) (class_name (h y)) sfield = Some ofield \<and>
            field_type (field_description ofield) = LIST \<and>
            getattr E ?h1 y (field_name ofield) = Inr cur \<and>
            isinstance_list cur \<and>
            r' = Return () (super_setattr ?h1 y (field_name ofield) (list_append cur (VInst x)))"
      then obtain ofield :: Field and cur where
        c: "getattr E ?h1 y (field_name ofield) = Inr cur" and l: "isinstance_list cur"
        and r': "r' = Return () (super_setattr ?h1 y (field_name ofield) (list_append cur (VInst x)))"
        by blast
      have "\<not> (y = s \<and> field_name ofield = n)"
      proof
        assume "y = s \<and> field_name ofield = n"
        with inv1 have "getattr E ?h1 y (field_name ofield) = Inr (VInst v)"
          by (auto intro: getattr_inst_dict)
        with c l show False by auto
      qed
      with r r' inv1 show ?thesis by (auto simp: inst_dict_super_setattr)
    qed
  next
    case (Again h1 v' n' xv)
    from hook_step_Again[OF Again] have
      v': "v' = y" and h1: "h1 = ?h1"
      and alt: "xv = VInst x \<or> xv = VList [VInst x]"
      by blast+
    from Again Suc.prems(1) v' h1 have nested: "setattr d E ?h1 y n' xv = Some r"
      by (simp add: setattr_Suc)
    from alt show ?thesis
    proof
      assume "xv = VInst x"
      with nested have "setattr d E ?h1 y n' (VInst x) = Some r" by simp
      from Suc.IH[OF this Suc.prems(3) Suc.prems(2)] inv1 show ?thesis by simp
    next
      assume a: "xv = VList [VInst x]"
      with nested setattr_list[of xv d E ?h1 y n' r]
      have "r = Return () (super_setattr ?h1 y n' (OwnedList y n' [VInst x]))" by simp
      with inv1 Suc.prems(3) show ?thesis by (auto simp: inst_dict_super_setattr)
    qed
  qed
qed

lemma hook_step_instance_inverse:
  assumes "find (\<lambda>f. field_name f = rel) (fields_of E (class_name (h a))) = Some sfield"
    and "field_storage (field_description sfield) = LOCAL_KEY \<or>
         field_storage (field_description sfield) = FOREIGN_KEY"
    and "other_field E (class_name (h a)) (class_name (h b)) sfield = Some ofield"
    and "field_type (field_description ofield) = INSTANCE"
    and "getattr E (super_setattr h a rel (VInst b)) b (field_name ofield) = Inr cur"
  shows "hook_step E h a rel (VInst b) =
           (case py_eq E (super_setattr h a rel (VInst b)) cur a of
              Inl e \<Rightarrow> Finish (Raise e (super_setattr h a rel (VInst b)))
            | Inr equal \<Rightarrow>
                if \<not> equal
                then Again (super_setattr h a rel (VInst b)) b (field_name ofield) (VInst a)
                else Finish (Return () (super_setattr h a rel (VInst b))))"
  using assms by (simp add: hook_step_def Let_def)

lemma hook_step_list_inverse:
  assumes "find (\<lambda>f. field_name f = rel) (fields_of E (class_name (h a))) = Some sfield"
    and "field_storage (field_description sfield) = LOCAL_KEY \<or>
         field_storage (field_description sfield) = FOREIGN_KEY"
    and "other_field E (class_name (h a)) (class_name (h b)) sfield = Some ofield"
    and "field_type (field_description ofield) = LIST"
    and "getattr E (super_setattr h a rel (VInst b)) b (field_name ofield) = Inr cur"
  shows "hook_step E h a rel (VInst b) =
           (if \<not> isinstance_list cur
            then Again (super_setattr h a rel (VInst b)) b (field_name ofield) (VList [VInst a])
            else
              (case py_in E (super_setattr h a rel (VInst b)) a (list_items cur) of
                 Inl e \<Rightarrow> Finish (Raise e (super_setattr h a rel (VInst b)))
               | Inr found \<Rightarrow>
                   if \<not> found
                   then Finish (Return () (super_setattr (super_setattr h a rel (VInst b)) b
                          (field_name ofield) (list_append cur (VInst a))))
                   else Finish (Return () (super_setattr h a rel (VInst b)))))"
  using assms by (simp add: hook_step_def Let_def)

lemma inverse_attr_exists:
  assumes wf: "wf_env E" and "attrs_ok E h b"
    and "other_field E c (class_name (h b)) sfield = Some ofield"
  shows "\<exists>cur. getattr E (super_setattr h a rel v) b (field_name ofield) = Inr cur"
proof -
  from wf_envD[OF wf assms(3)]
  have "ofield \<in> set (fields_of E (class_name (super_setattr h a rel v b)))"
    by (auto dest: find_Some_iff[THEN iffD1] simp: in_set_conv_nth)
  from attrs_ok_getattr[OF attrs_ok_super_setattr[OF assms(2)] this] show ?thesis .
qed

lemma super_setattr_idem:
  "inst_dict (h p) n = Some v \<Longrightarrow> super_setattr h p n v = h"
  by (auto simp: super_setattr_def fun_eq_iff map_upd_triv)

lemma super_setattr_twice:
  "super_setattr (super_setattr h p n v) p n w = super_setattr h p n w"
  by (simp add: super_setattr_def)

lemma list_items_list_append:
  "isinstance_list cur \<Longrightarrow> list_items (list_append cur x) = list_items cur @ [x]"
  by (cases cur) simp_all

lemma isinstance_list_list_append:
  "isinstance_list cur \<Longrightarrow> isinstance_list (list_append cur x)"
  by (cases cur) simp_all

lemma not_py_in_count: "py_in E h a xs = Inr False \<Longrightarrow> count_list xs (VInst a) = 0"
  using py_in_self[of a xs E h] by (auto simp: count_list_0_iff)

lemma setattr_instance_guard:
  assumes sf: "find (\<lambda>f. field_name f = rel) (fields_of E (class_name (h a))) = Some sfield"
    and st: "field_storage (field_description sfield) = LOCAL_KEY \<or>
         field_storage (field_description sfield) = FOREIGN_KEY"
    and ofl: "other_field E (class_name (h a)) (class_name (h b)) sfield = Some ofield"
    and ty: "field_type (field_description ofield) = INSTANCE"
    and cur: "getattr E (super_setattr h a rel (VInst b)) b (field_name ofield) = Inr cur"
  shows "setattr (Suc d) E h a rel (VInst b) =
           (case py_eq E (super_setattr h a rel (VInst b)) cur a of
              Inl e \<Rightarrow> Some (Raise e (super_setattr h a rel (VInst b)))
            | Inr equal \<Rightarrow>
                if \<not> equal
                then setattr d E (super_setattr h a rel (VInst b)) b (field_name ofield) (VInst a)
                else Some (Return () (super_setattr h a rel (VInst b))))"
  by (simp add: setattr_Suc hook_step_instance_inverse[OF sf st ofl ty cur] split: sum.splits)

lemma setattr_list_guard:
  assumes sf: "find (\<lambda>f. field_name f = rel) (fields_of E (class_name (h a))) = Some sfield"
    and st: "field_storage (field_description sfield) = LOCAL_KEY \<or>
         field_storage (field_description sfield) = FOREIGN_KEY"
    and ofl: "other_field E (class_name (h a)) (class_name (h b)) sfield = Some ofield"
    and ty: "field_type (field_description ofield) = LIST"
    and cur: "getattr E (super_setattr h a rel (VInst b)) b (field_name ofield) = Inr cur"
  shows "setattr (Suc (Suc d)) E h a rel (VInst b) =
           (if \<not> isinstance_list cur then
              Some (Return ()
                (super_setattr (super_setattr h a rel (VInst b)) b (field_name ofield)
                   (OwnedList b (field_name ofield) [VInst a])))
            else
              (case py_in E (super_setattr h a rel (VInst b)) a (list_items cur) of
                 Inl e \<Rightarrow> Some (Raise e (super_setattr h a rel (VInst b)))
               | Inr found \<Rightarrow>
                   if \<not> found then
                     Some (Return ()
                       (super_setattr (super_setattr h a rel (VInst b)) b (field_name ofield)
                          (list_append cur (VInst a))))
                   else Some (Return () (super_setattr h a rel (VInst b)))))"
  by (simp add: setattr_Suc[of "Suc d"] hook_step_list_inverse[OF sf st ofl ty cur]
      setattr_list_value split: sum.splits)

lemma setattr_from_two:
  "setattr (Suc (Suc 0)) E h self name x = Some r \<Longrightarrow> 2 \<le> d \<Longrightarrow>
   setattr d E h self name x = Some r"
  using setattr_mono_le[of "Suc (Suc 0)" d E h self name x r] by (simp add: numeral_2_eq_2)

lemma setattr_from_one:
  "setattr (Suc 0) E h self name x = Some r \<Longrightarrow> 1 \<le> d \<Longrightarrow>
   setattr d E h self name x = Some r"
  using setattr_mono_le[of "Suc 0" d E h self name x r] by simp

text \<open>
  The assignment that the synchronisation makes on the other side returns at once when
  the inverse of the inverse field is the field that was assigned, with kind \<^verbatim>\<open>INSTANCE\<close>:
  its guard finds the forward link.
\<close>

lemma back_assignment_returns:
  assumes wf: "wf_env E"
    and ofl: "other_field E c (class_name (h1 b)) sfield = Some ofield"
    and pr: "\<And>f'. other_field E (class_name (h1 b)) (class_name (h1 a)) ofield = Some f' \<Longrightarrow>
               field_name f' = rel \<and> field_type (field_description f') = INSTANCE"
    and fwd: "inst_dict (h1 a) rel = Some (VInst b)"
  shows "setattr (Suc d) E h1 b (field_name ofield) (VInst a) =
           Some (Return () (super_setattr h1 b (field_name ofield) (VInst a)))"
proof -
  let ?inv = "field_name ofield"
  let ?h2 = "super_setattr h1 b ?inv (VInst a)"
  from wf_envD[OF wf ofl]
  have fnd: "find (\<lambda>f. field_name f = ?inv) (fields_of E (class_name (h1 b))) = Some ofield" .
  have "hook_step E h1 b ?inv (VInst a) = Finish (Return () ?h2)"
  proof (cases "field_storage (field_description ofield) = LOCAL_KEY \<or>
                field_storage (field_description ofield) = FOREIGN_KEY")
    case False
    with fnd show ?thesis by (simp add: hook_step_def)
  next
    case True
    show ?thesis
    proof (cases "other_field E (class_name (h1 b)) (class_name (h1 a)) ofield")
      case None
      with fnd True show ?thesis by (simp add: hook_step_def)
    next
      case (Some f')
      from pr[OF Some] have nm: "field_name f' = rel"
        and ty': "field_type (field_description f') = INSTANCE" by simp_all
      have "inst_dict (?h2 a) rel = Some (VInst b)"
        using fwd by (auto simp: inst_dict_super_setattr)
      then have g: "getattr E ?h2 a (field_name f') = Inr (VInst b)"
        unfolding nm by (rule getattr_inst_dict)
      from fnd True Some ty' g show ?thesis by (simp add: hook_step_def)
    qed
  qed
  then show ?thesis by (simp add: setattr_Suc)
qed

section \<open>Facts about the example\<close>

lemma wf_env_blog: "wf_env blog"
  by (auto simp: wf_env_def blog_def blog_other_field_def blog_fields_def mk_field_def
      split: if_splits)

lemma attrs_ok_blog: "attrs_ok blog h p"
  by (simp add: attrs_ok_def blog_def blog_class_attr_def)

lemma blog_eq_numeral:
  "blog_eq (numeral k) h x y =
     (case blog_compare h x y of
        Decided b \<Rightarrow> Inr b
      | Pairwise ps \<Rightarrow> all_equal (map (\<lambda>(a, b). blog_eq (pred_numeral k) h a b) ps)
      | Unequal_after ps \<Rightarrow>
          all_equal (map (\<lambda>(a, b). blog_eq (pred_numeral k) h a b) ps @ [Inr False]))"
  by (simp add: numeral_eq_Suc)

lemma blog_eq_Decided:
  "blog_compare h x y = Decided b \<Longrightarrow> blog_eq d h x y = Inr b"
  by (cases d) simp_all

lemmas blog_eval =
  blog_def blog_fields_def blog_other_field_def blog_class_attr_def blog_attr_def
  blog_instance_eq_def blog_compare_def recursion_limit_def blog_eq_numeral
  heap0_def heap1_def heap2_def heap_note_def heap_pair_def heap_ring1_def heap_ring2_def heap_ring_def
  heap_dup_def heap_loop1_def heap_loop2_def heap_loop_def heap_friend_def
  new_object_def new_post_def mk_field_def super_setattr_def getattr_def

lemma blog_find_user:
  "find (\<lambda>f. field_name f = ''user'') (fields_of blog (class_name (heap0 4))) =
     Some (mk_field ''user'' INSTANCE LOCAL_KEY)"
  by (simp add: blog_def heap0_def new_object_def new_post_def blog_fields_def mk_field_def)

lemma blog_other_user:
  "other_field blog (class_name (heap0 4)) (class_name (heap0 1))
     (mk_field ''user'' INSTANCE LOCAL_KEY) = Some (mk_field ''profile'' INSTANCE FOREIGN_KEY)"
  by (simp add: blog_def heap0_def new_object_def new_post_def blog_other_field_def mk_field_def)

lemma blog_find_author:
  "find (\<lambda>f. field_name f = ''author'') (fields_of blog (class_name (heap0 2))) =
     Some (mk_field ''author'' INSTANCE LOCAL_KEY)"
  by (simp add: blog_def heap0_def new_post_def blog_fields_def mk_field_def)

lemma blog_other_author:
  "other_field blog (class_name (heap0 2)) (class_name (heap0 1))
     (mk_field ''author'' INSTANCE LOCAL_KEY) = Some (mk_field ''posts'' LIST FOREIGN_KEY)"
  by (simp add: blog_def heap0_def new_object_def new_post_def blog_other_field_def mk_field_def)

text \<open>
  Two users that hold each a profile of the other: comparing the users goes from a user
  to its profile and from the profile to its user, round and round, at every depth.
\<close>

lemma crossed_profiles_raise:
  assumes cu: "class_name (h u) = ''User''" "class_name (h u') = ''User''"
    and cp: "class_name (h p) = ''Profile''" "class_name (h p') = ''Profile''"
    and ne: "u \<noteq> u'" "p \<noteq> p'"
    and nm: "inst_dict (h u) ''name'' = Some VNone" "inst_dict (h u') ''name'' = Some VNone"
    and ps: "inst_dict (h u) ''posts'' = Some VNone" "inst_dict (h u') ''posts'' = Some VNone"
    and pf: "inst_dict (h u) ''profile'' = Some (VInst p)"
            "inst_dict (h u') ''profile'' = Some (VInst p')"
    and us: "inst_dict (h p) ''user'' = Some (VInst u')" "inst_dict (h p') ''user'' = Some (VInst u)"
  shows "blog_eq n h (VInst u) (VInst u') = Inl RecursionError \<and>
         blog_eq n h (VInst p) (VInst p') = Inl RecursionError \<and>
         blog_eq n h (VInst u') (VInst u) = Inl RecursionError \<and>
         blog_eq n h (VInst p') (VInst p) = Inl RecursionError"
proof (induction n)
  case 0
  from assms show ?case
    by (simp add: blog_compare_def blog_attr_def blog_fields_def mk_field_def)
next
  case (Suc n)
  have none: "blog_eq n h VNone VNone = Inr True"
    by (rule blog_eq_Decided) (simp add: blog_compare_def)
  from assms Suc none show ?case
    by (simp add: blog_compare_def blog_attr_def blog_fields_def mk_field_def)
qed

text \<open>
  Two users that hold each a post of the other in their lists, the two posts of the same
  title: comparing the posts goes from a post to its author, from the author to the
  list of posts and from the list to the post in it, round and round.
\<close>

lemma crossed_posts_raise:
  assumes cu: "class_name (h u) = ''User''" "class_name (h u') = ''User''"
    and cq: "class_name (h q) = ''Post''" "class_name (h q') = ''Post''"
    and ne: "u \<noteq> u'" "q \<noteq> q'"
    and nm: "inst_dict (h u) ''name'' = Some VNone" "inst_dict (h u') ''name'' = Some VNone"
    and ti: "inst_dict (h q) ''title'' = Some (VStr t)" "inst_dict (h q') ''title'' = Some (VStr t)"
    and au: "inst_dict (h q) ''author'' = Some (VInst u)" "inst_dict (h q') ''author'' = Some (VInst u')"
    and ps: "inst_dict (h u) ''posts'' = Some (OwnedList u ''posts'' [VInst q'])"
            "inst_dict (h u') ''posts'' = Some (OwnedList u' ''posts'' [VInst q])"
  shows "blog_eq n h (VInst q) (VInst q') = Inl RecursionError \<and>
         blog_eq n h (VInst u) (VInst u') = Inl RecursionError \<and>
         blog_eq n h (OwnedList u ''posts'' [VInst q']) (OwnedList u' ''posts'' [VInst q]) =
           Inl RecursionError \<and>
         blog_eq n h (VInst q') (VInst q) = Inl RecursionError \<and>
         blog_eq n h (VInst u') (VInst u) = Inl RecursionError \<and>
         blog_eq n h (OwnedList u' ''posts'' [VInst q]) (OwnedList u ''posts'' [VInst q']) =
           Inl RecursionError"
proof (induction n)
  case 0
  from assms show ?case
    by (simp add: blog_compare_def blog_attr_def blog_fields_def mk_field_def)
next
  case (Suc n)
  have none: "blog_eq n h VNone VNone = Inr True"
    by (rule blog_eq_Decided) (simp add: blog_compare_def)
  have title: "blog_eq n h (VStr t) (VStr t) = Inr True"
    by (rule blog_eq_Decided) (simp add: blog_compare_def)
  from assms Suc none title show ?case
    by (simp add: blog_compare_def blog_attr_def blog_fields_def mk_field_def)
qed

section \<open>Validation as a test: \<^verbatim>\<open>is_valid\<close>\<close>

text \<open>
  C7. \<^verbatim>\<open>is_valid\<close> is decided by \<^verbatim>\<open>validate(all_fields=False)\<close>: when that call raises a
  \<^verbatim>\<open>ValidationException\<close>, \<^verbatim>\<open>is_valid\<close> returns \<^verbatim>\<open>False\<close>; when it returns,
  \<^verbatim>\<open>is_valid\<close> returns \<^verbatim>\<open>True\<close>; and no outcome of \<^verbatim>\<open>is_valid\<close> is a raised
  \<^verbatim>\<open>ValidationException\<close>.
\<close>

theorem is_valid_never_raises_validation:
  "(validate E h self (Some False) = Raise (ValidationException m) h' \<longrightarrow>
      is_valid E h self = Return False h') \<and>
   (validate E h self (Some False) = Return r h' \<longrightarrow>
      is_valid E h self = Return True h') \<and>
   is_valid E h self \<noteq> Raise (ValidationException m') h''"
  by (simp add: is_valid_def split: outcome.splits exn.splits)

theorem is_valid_never_raises_validation_witness:
  "validate blog heap0 1 (Some False) = Raise (ValidationException ''name'') heap0 \<and>
   is_valid blog heap0 1 = Return False heap0 \<and>
   validate blog heap0 2 (Some False) = Return 2 heap0 \<and>
   is_valid blog heap0 2 = Return True heap0"
proof -
  have v1: "validate blog heap0 1 (Some False) = Raise (ValidationException ''name'') heap0"
    by (simp add: validate_def validate_context_def Let_def blog_def blog_validate_def heap0_def
        new_object_def new_post_def blog_fields_def mk_field_def)
  have v2: "validate blog heap0 2 (Some False) = Return 2 heap0"
    by (simp add: validate_def blog_def blog_validate_def heap0_def new_object_def new_post_def)
  note t1 = is_valid_never_raises_validation
    [of blog heap0 1 "''name''" heap0 undefined undefined undefined, THEN conjunct1, rule_format, OF v1]
  note t2 = is_valid_never_raises_validation
    [of blog heap0 2 undefined heap0 2 undefined undefined, THEN conjunct2, THEN conjunct1,
     rule_format, OF v2]
  from v1 t1 v2 t2 show ?thesis by (intro conjI)
qed

section \<open>Relationship synchronisation\<close>

subsection \<open>A single-valued inverse field\<close>

lemma single_link_unequal:
  assumes wf: "wf_env E" and oka: "attrs_ok E h a" and okb: "attrs_ok E h b"
    and sf: "find (\<lambda>f. field_name f = rel) (fields_of E (class_name (h a))) = Some sfield"
    and st: "field_storage (field_description sfield) = LOCAL_KEY \<or>
         field_storage (field_description sfield) = FOREIGN_KEY"
    and ofl: "other_field E (class_name (h a)) (class_name (h b)) sfield = Some ofield"
    and ty: "field_type (field_description ofield) = INSTANCE"
    and cur: "getattr E (super_setattr h a rel (VInst b)) b (field_name ofield) = Inr cur"
    and ne: "py_eq E (super_setattr h a rel (VInst b)) cur a = Inr False"
  shows "\<exists>D r. (\<forall>d\<ge>D. setattr d E h a rel (VInst b) = Some r) \<and>
           getattr E (heap_of r) b (field_name ofield) = Inr (VInst a) \<and>
           (\<forall>e h'. r = Raise e h' \<longrightarrow> (\<exists>hh p q. instance_eq E hh p q = Inl e))"
proof -
  let ?h1 = "super_setattr h a rel (VInst b)"
  let ?inv = "field_name ofield"
  from setattr_terminates[where E = E and h = h and self = a and name = rel and x = "VInst b"]
  obtain K r where
    all: "\<forall>d\<ge>K. setattr d E h a rel (VInst b) = Some r" by blast
  then have "setattr (Suc K) E h a rel (VInst b) = Some r" by simp
  with ne have nested: "setattr K E ?h1 b ?inv (VInst a) = Some r"
    by (simp add: setattr_instance_guard[OF sf st ofl ty cur])
  have nl: "\<not> list_field E (class_name (h b)) ?inv"
    using wf_envD[OF wf ofl] ty by (simp add: list_field_def)
  from setattr_keeps_link[OF wf nl nested, where s = b and v = a]
  have "inst_dict (heap_of r b) ?inv = Some (VInst a)" by simp
  then have link: "getattr E (heap_of r) b ?inv = Inr (VInst a)" by (rule getattr_inst_dict)
  have dec: "find (\<lambda>f. field_name f = ?inv) (fields_of E (class_name (?h1 b))) \<noteq> None"
    using wf_envD[OF wf ofl] by simp
  have cause: "\<exists>hh p q. instance_eq E hh p q = Inl e" if "r = Raise e h'" for e h'
    using setattr_raises_comparison[OF wf nested[unfolded that]
        attrs_ok_super_setattr[OF okb] attrs_ok_super_setattr[OF oka] dec] .
  from all link cause show ?thesis by blast
qed

text \<open>
  C1, as amended. Let the field \<open>rel\<close> of \<open>a\<close> have storage \<^verbatim>\<open>LOCAL_KEY\<close> or
  \<^verbatim>\<open>FOREIGN_KEY\<close>, let \<^verbatim>\<open>other_field\<close> resolve it to a field of \<open>b\<close> of kind \<^verbatim>\<open>INSTANCE\<close>,
  and let \<open>cur\<close> be what the hook reads from that field of \<open>b\<close> once the forward link is
  stored. The objects are initialised and the inverse descriptor is a declared field of
  the class of \<open>b\<close>.
  \<^item> If \<open>cur\<close> is \<open>a\<close> itself, the assignment \<^verbatim>\<open>a.rel = b\<close> stores the forward link and
    nothing else: the inverse field is not assigned again.
  \<^item> If \<open>cur\<close> is another instance of the class of \<open>a\<close>, the guard \<^verbatim>\<open>!=\<close> runs the
    generated \<^verbatim>\<open>__eq__\<close>. When that answers that the two are equal, the assignment
    likewise stores the forward link only, and the inverse field goes on holding the
    other instance, not \<open>a\<close>. When it raises, the assignment raises the same exception,
    with the forward link stored and the inverse field as it was.
  \<^item> In every other case (\<open>cur\<close> is no instance, an instance of another class, or one
    that the \<^verbatim>\<open>__eq__\<close> finds different) the hook assigns \<open>a\<close> to the inverse field of
    \<open>b\<close>: the assignment has an outcome, it leaves the inverse field holding \<open>a\<close>
    itself, and it returns unless a comparison made further down raises; when the
    inverse field's own inverse, if it has one, is the field \<open>rel\<close> with kind
    \<^verbatim>\<open>INSTANCE\<close>, it returns after this one nested assignment.
\<close>

theorem assignment_sets_single_valued_inverse:
  fixes E :: env and h :: heap and a b :: addr and rel :: string
  defines "h1 \<equiv> super_setattr h a rel (VInst b)"
  assumes wf: "wf_env E" and oka: "attrs_ok E h a" and okb: "attrs_ok E h b"
    and sf: "find (\<lambda>f. field_name f = rel) (fields_of E (class_name (h a))) = Some sfield"
    and st: "field_storage (field_description sfield) = LOCAL_KEY \<or>
         field_storage (field_description sfield) = FOREIGN_KEY"
    and ofl: "other_field E (class_name (h a)) (class_name (h b)) sfield = Some ofield"
    and ty: "field_type (field_description ofield) = INSTANCE"
    and cur: "getattr E h1 b (field_name ofield) = Inr cur"
  shows "(cur = VInst a \<longrightarrow>
            (\<forall>d\<ge>1. setattr d E h a rel (VInst b) = Some (Return () h1))) \<and>
         (\<forall>c. cur = VInst c \<and> c \<noteq> a \<and> class_name (h c) = class_name (h a) \<longrightarrow>
            (instance_eq E h1 c a = Inr True \<longrightarrow>
               (\<forall>d\<ge>1. setattr d E h a rel (VInst b) = Some (Return () h1))) \<and>
            (\<forall>e. instance_eq E h1 c a = Inl e \<longrightarrow>
               (\<forall>d\<ge>1. setattr d E h a rel (VInst b) = Some (Raise e h1)))) \<and>
         ((\<forall>c. cur = VInst c \<longrightarrow>
              c \<noteq> a \<and> (class_name (h c) = class_name (h a) \<longrightarrow> instance_eq E h1 c a = Inr False)) \<longrightarrow>
            (\<exists>D r. (\<forall>d\<ge>D. setattr d E h a rel (VInst b) = Some r) \<and>
               getattr E (heap_of r) b (field_name ofield) = Inr (VInst a) \<and>
               (\<forall>e h'. r = Raise e h' \<longrightarrow> (\<exists>hh p q. instance_eq E hh p q = Inl e))) \<and>
            ((\<forall>f'. other_field E (class_name (h b)) (class_name (h a)) ofield = Some f' \<longrightarrow>
                 field_name f' = rel \<and> field_type (field_description f') = INSTANCE) \<longrightarrow>
               (\<forall>d\<ge>2. setattr d E h a rel (VInst b) =
                  Some (Return () (super_setattr h1 b (field_name ofield) (VInst a))))))"
proof (intro conjI impI allI)
  fix d :: nat assume c: "cur = VInst a" and d: "1 \<le> d"
  have "setattr (Suc 0) E h a rel (VInst b) = Some (Return () h1)"
    using c by (simp add: setattr_instance_guard[OF sf st ofl ty cur[unfolded h1_def]] h1_def)
  from setattr_from_one[OF this d] show "setattr d E h a rel (VInst b) = Some (Return () h1)" .
next
  fix c d assume c: "cur = VInst c \<and> c \<noteq> a \<and> class_name (h c) = class_name (h a)"
    and eq: "instance_eq E h1 c a = Inr True" and d: "1 \<le> (d::nat)"
  from c eq have "py_eq E h1 cur a = Inr True" by (simp add: h1_def)
  then have "setattr (Suc 0) E h a rel (VInst b) = Some (Return () h1)"
    by (simp add: setattr_instance_guard[OF sf st ofl ty cur[unfolded h1_def]] h1_def)
  from setattr_from_one[OF this d] show "setattr d E h a rel (VInst b) = Some (Return () h1)" .
next
  fix c e d assume c: "cur = VInst c \<and> c \<noteq> a \<and> class_name (h c) = class_name (h a)"
    and eq: "instance_eq E h1 c a = Inl e" and d: "1 \<le> (d::nat)"
  from c eq have "py_eq E h1 cur a = Inl e" by (simp add: h1_def)
  then have "setattr (Suc 0) E h a rel (VInst b) = Some (Raise e h1)"
    by (simp add: setattr_instance_guard[OF sf st ofl ty cur[unfolded h1_def]] h1_def)
  from setattr_from_one[OF this d] show "setattr d E h a rel (VInst b) = Some (Raise e h1)" .
next
  assume A: "\<forall>c. cur = VInst c \<longrightarrow>
              c \<noteq> a \<and> (class_name (h c) = class_name (h a) \<longrightarrow> instance_eq E h1 c a = Inr False)"
  then have ne: "py_eq E (super_setattr h a rel (VInst b)) cur a = Inr False"
    by (cases cur) (auto simp: h1_def)
  from single_link_unequal[OF wf oka okb sf st ofl ty cur[unfolded h1_def] ne]
  show "\<exists>D r. (\<forall>d\<ge>D. setattr d E h a rel (VInst b) = Some r) \<and>
               getattr E (heap_of r) b (field_name ofield) = Inr (VInst a) \<and>
               (\<forall>e h'. r = Raise e h' \<longrightarrow> (\<exists>hh p q. instance_eq E hh p q = Inl e))" .
next
  fix d :: nat
  assume A: "\<forall>c. cur = VInst c \<longrightarrow>
              c \<noteq> a \<and> (class_name (h c) = class_name (h a) \<longrightarrow> instance_eq E h1 c a = Inr False)"
    and P: "\<forall>f'. other_field E (class_name (h b)) (class_name (h a)) ofield = Some f' \<longrightarrow>
                 field_name f' = rel \<and> field_type (field_description f') = INSTANCE"
    and d: "2 \<le> d"
  from A have ne: "py_eq E (super_setattr h a rel (VInst b)) cur a = Inr False"
    by (cases cur) (auto simp: h1_def)
  have ofl1: "other_field E (class_name (h a)) (class_name (h1 b)) sfield = Some ofield"
    using ofl by (simp add: h1_def)
  have pr: "field_name f' = rel \<and> field_type (field_description f') = INSTANCE"
    if "other_field E (class_name (h1 b)) (class_name (h1 a)) ofield = Some f'" for f'
    using P that by (simp add: h1_def)
  have fwd: "inst_dict (h1 a) rel = Some (VInst b)"
    by (simp add: h1_def inst_dict_super_setattr)
  from back_assignment_returns[OF wf ofl1 pr fwd, of 0]
  have "setattr (Suc (Suc 0)) E h a rel (VInst b) =
          Some (Return () (super_setattr h1 b (field_name ofield) (VInst a)))"
    using ne by (simp add: setattr_instance_guard[OF sf st ofl ty cur[unfolded h1_def]] h1_def)
  from setattr_from_two[OF this d]
  show "setattr d E h a rel (VInst b) =
          Some (Return () (super_setattr h1 b (field_name ofield) (VInst a)))" .
qed

lemma blog_find_profile:
  "class_name (h p) = ''User'' \<Longrightarrow>
   find (\<lambda>f. field_name f = ''profile'') (fields_of blog (class_name (h p))) =
     Some (mk_field ''profile'' INSTANCE FOREIGN_KEY)"
  by (simp add: blog_def blog_fields_def mk_field_def)

lemma blog_other_profile:
  "class_name (h p) = ''User'' \<Longrightarrow> class_name (h q) = ''Profile'' \<Longrightarrow>
   other_field blog (class_name (h p)) (class_name (h q))
     (mk_field ''profile'' INSTANCE FOREIGN_KEY) = Some (mk_field ''user'' INSTANCE LOCAL_KEY)"
  by (simp add: blog_def blog_other_field_def mk_field_def)

lemma blog_find_author_of:
  "class_name (h p) = ''Post'' \<Longrightarrow>
   find (\<lambda>f. field_name f = ''author'') (fields_of blog (class_name (h p))) =
     Some (mk_field ''author'' INSTANCE LOCAL_KEY)"
  by (simp add: blog_def blog_fields_def mk_field_def)

lemma blog_other_author_of:
  "class_name (h p) = ''Post'' \<Longrightarrow> class_name (h q) = ''User'' \<Longrightarrow>
   other_field blog (class_name (h p)) (class_name (h q))
     (mk_field ''author'' INSTANCE LOCAL_KEY) = Some (mk_field ''posts'' LIST FOREIGN_KEY)"
  by (simp add: blog_def blog_other_field_def mk_field_def)

lemma mk_field_sel [simp]:
  "field_name (mk_field n t s) = n"
  "field_type (field_description (mk_field n t s)) = t"
  "field_storage (field_description (mk_field n t s)) = s"
  by (simp_all add: mk_field_def)

lemma ring_compare_raises:
  "instance_eq blog (super_setattr heap_ring 1 ''profile'' (VInst 4)) 5 1 = Inl RecursionError"
proof -
  define hr where "hr = super_setattr heap_ring 1 ''profile'' (VInst 4)"
  have c: "class_name (hr 5) = ''User''" "class_name (hr 1) = ''User''"
    "class_name (hr 6) = ''Profile''" "class_name (hr 4) = ''Profile''"
    by (simp_all add: hr_def blog_eval)
  have n: "inst_dict (hr 5) ''name'' = Some VNone" "inst_dict (hr 1) ''name'' = Some VNone"
    "inst_dict (hr 5) ''posts'' = Some VNone" "inst_dict (hr 1) ''posts'' = Some VNone"
    by (simp_all add: hr_def blog_eval)
  have l: "inst_dict (hr 5) ''profile'' = Some (VInst 6)" "inst_dict (hr 1) ''profile'' = Some (VInst 4)"
    "inst_dict (hr 6) ''user'' = Some (VInst 1)" "inst_dict (hr 4) ''user'' = Some (VInst 5)"
    by (simp_all add: hr_def blog_eval)
  have "blog_eq recursion_limit hr (VInst 5) (VInst 1) = Inl RecursionError"
    using crossed_profiles_raise[where h = hr and u = 5 and u' = 1 and p = 6 and p' = 4
        and n = recursion_limit, OF c _ _ n l]
    by simp
  then show ?thesis by (simp add: hr_def blog_def blog_instance_eq_def)
qed

lemma ring_assignment_raises:
  "setattr (Suc d) blog heap_ring 1 ''profile'' (VInst 4) =
     Some (Raise RecursionError (super_setattr heap_ring 1 ''profile'' (VInst 4)))"
proof -
  have c: "class_name (heap_ring 1) = ''User''" "class_name (heap_ring 4) = ''Profile''"
    "class_name (heap_ring 5) = ''User''"
    by (simp_all add: blog_eval)
  have cur: "getattr blog (super_setattr heap_ring 1 ''profile'' (VInst 4)) 4
               (field_name (mk_field ''user'' INSTANCE LOCAL_KEY)) = Inr (VInst 5)"
    by (simp add: blog_eval)
  have pe: "py_eq blog (super_setattr heap_ring 1 ''profile'' (VInst 4)) (VInst 5) 1 =
          Inl RecursionError"
    using c ring_compare_raises by simp
  have st: "field_storage (field_description (mk_field ''profile'' INSTANCE FOREIGN_KEY)) = LOCAL_KEY \<or>
            field_storage (field_description (mk_field ''profile'' INSTANCE FOREIGN_KEY)) = FOREIGN_KEY"
    and ty: "field_type (field_description (mk_field ''user'' INSTANCE LOCAL_KEY)) = INSTANCE"
    by simp_all
  note step = setattr_instance_guard[OF blog_find_profile[of heap_ring 1, OF c(1)] st
          blog_other_profile[of heap_ring 1 4, OF c(1,2)] ty cur, of d]
  show ?thesis by (subst step) (simp only: pe sum.case)
qed

theorem assignment_sets_single_valued_inverse_witness:
  "wf_env blog \<and> attrs_ok blog heap0 4 \<and> attrs_ok blog heap0 1 \<and>
   find (\<lambda>f. field_name f = ''user'') (fields_of blog (class_name (heap0 4))) =
     Some (mk_field ''user'' INSTANCE LOCAL_KEY) \<and>
   other_field blog (class_name (heap0 4)) (class_name (heap0 1))
     (mk_field ''user'' INSTANCE LOCAL_KEY) = Some (mk_field ''profile'' INSTANCE FOREIGN_KEY) \<and>
   getattr blog (super_setattr heap0 4 ''user'' (VInst 1)) 1 ''profile'' = Inr VNone \<and>
   setattr 2 blog heap0 4 ''user'' (VInst 1) = Some (Return () heap_pair) \<and>
   getattr blog heap_pair 1 ''profile'' = Inr (VInst 4) \<and>
   getattr blog (super_setattr heap_pair 4 ''user'' (VInst 1)) 1 ''profile'' = Inr (VInst 4) \<and>
   setattr 1 blog heap_pair 4 ''user'' (VInst 1) =
     Some (Return () (super_setattr heap_pair 4 ''user'' (VInst 1))) \<and>
   getattr blog (super_setattr heap_pair 5 ''profile'' (VInst 4)) 4 ''user'' = Inr (VInst 1) \<and>
   instance_eq blog (super_setattr heap_pair 5 ''profile'' (VInst 4)) 1 5 = Inr True \<and>
   setattr 1 blog heap_pair 5 ''profile'' (VInst 4) =
     Some (Return () (super_setattr heap_pair 5 ''profile'' (VInst 4))) \<and>
   getattr blog (super_setattr heap_ring 1 ''profile'' (VInst 4)) 4 ''user'' = Inr (VInst 5) \<and>
   instance_eq blog (super_setattr heap_ring 1 ''profile'' (VInst 4)) 5 1 = Inl RecursionError \<and>
   setattr 1 blog heap_ring 1 ''profile'' (VInst 4) =
     Some (Raise RecursionError (super_setattr heap_ring 1 ''profile'' (VInst 4)))"
proof -
  note t = assignment_sets_single_valued_inverse
  have cls: "class_name (heap0 4) = ''Profile''" "class_name (heap0 1) = ''User''"
    "class_name (heap_pair 4) = ''Profile''" "class_name (heap_pair 1) = ''User''"
    "class_name (heap_pair 5) = ''User''"
    "class_name (heap_ring 4) = ''Profile''" "class_name (heap_ring 1) = ''User''"
    "class_name (heap_ring 5) = ''User''"
    by (simp_all add: blog_eval)
  have fu: "find (\<lambda>f. field_name f = ''user'') (fields_of blog (class_name (h 4))) =
              Some (mk_field ''user'' INSTANCE LOCAL_KEY)"
    and ou: "other_field blog (class_name (h 4)) (class_name (h 1))
               (mk_field ''user'' INSTANCE LOCAL_KEY) = Some (mk_field ''profile'' INSTANCE FOREIGN_KEY)"
    if "class_name (h 4) = ''Profile''" "class_name (h 1) = ''User''" for h :: heap
    using that by (simp_all add: blog_def blog_fields_def blog_other_field_def mk_field_def)
  have st: "field_storage (field_description (mk_field ''user'' INSTANCE LOCAL_KEY)) = LOCAL_KEY \<or>
            field_storage (field_description (mk_field ''user'' INSTANCE LOCAL_KEY)) = FOREIGN_KEY"
    and st': "field_storage (field_description (mk_field ''profile'' INSTANCE FOREIGN_KEY)) = LOCAL_KEY \<or>
            field_storage (field_description (mk_field ''profile'' INSTANCE FOREIGN_KEY)) = FOREIGN_KEY"
    and ty: "field_type (field_description (mk_field ''profile'' INSTANCE FOREIGN_KEY)) = INSTANCE"
    and ty': "field_type (field_description (mk_field ''user'' INSTANCE LOCAL_KEY)) = INSTANCE"
    by simp_all
  text \<open>\<^verbatim>\<open>profile4.user = user1\<close> on new objects: the inverse field is set.\<close>
  have c1: "getattr blog (super_setattr heap0 4 ''user'' (VInst 1)) 1
              (field_name (mk_field ''profile'' INSTANCE FOREIGN_KEY)) = Inr VNone"
    by (simp add: blog_eval)
  have a1: "\<forall>c. VNone = VInst c \<longrightarrow>
              c \<noteq> 4 \<and> (class_name (heap0 c) = class_name (heap0 4) \<longrightarrow>
                instance_eq blog (super_setattr heap0 4 ''user'' (VInst 1)) c 4 = Inr False)"
    by simp
  have p1: "\<forall>f'. other_field blog (class_name (heap0 1)) (class_name (heap0 4))
                   (mk_field ''profile'' INSTANCE FOREIGN_KEY) = Some f' \<longrightarrow>
                 field_name f' = ''user'' \<and> field_type (field_description f') = INSTANCE"
    by (auto simp: cls blog_def blog_other_field_def)
  have r1: "setattr 2 blog heap0 4 ''user'' (VInst 1) = Some (Return () heap_pair)"
    using t[OF wf_env_blog attrs_ok_blog attrs_ok_blog fu[OF cls(1,2)] st ou[OF cls(1,2)] ty c1,
        THEN conjunct2, THEN conjunct2, THEN mp, OF a1, THEN conjunct2, THEN mp, OF p1,
        rule_format, of 2]
    by (simp add: heap_pair_def)
  text \<open>The same assignment again: the inverse field holds \<^verbatim>\<open>profile4\<close> and is left alone.\<close>
  have c2: "getattr blog (super_setattr heap_pair 4 ''user'' (VInst 1)) 1
              (field_name (mk_field ''profile'' INSTANCE FOREIGN_KEY)) = Inr (VInst 4)"
    by (simp add: blog_eval)
  have r2: "setattr 1 blog heap_pair 4 ''user'' (VInst 1) =
              Some (Return () (super_setattr heap_pair 4 ''user'' (VInst 1)))"
    using t[OF wf_env_blog attrs_ok_blog attrs_ok_blog fu[OF cls(3,4)] st ou[OF cls(3,4)] ty c2,
        THEN conjunct1, rule_format, of 1]
    by simp
  text \<open>\<^verbatim>\<open>user5.profile = profile4\<close>: \<^verbatim>\<open>user1\<close>, which the inverse field holds, equals \<^verbatim>\<open>user5\<close>.\<close>
  have c3: "getattr blog (super_setattr heap_pair 5 ''profile'' (VInst 4)) 4
              (field_name (mk_field ''user'' INSTANCE LOCAL_KEY)) = Inr (VInst 1)"
    by (simp add: blog_eval)
  have e3: "instance_eq blog (super_setattr heap_pair 5 ''profile'' (VInst 4)) 1 5 = Inr True"
    by (simp add: blog_eval)
  have r3: "setattr 1 blog heap_pair 5 ''profile'' (VInst 4) =
              Some (Return () (super_setattr heap_pair 5 ''profile'' (VInst 4)))"
    using t[OF wf_env_blog attrs_ok_blog attrs_ok_blog
          blog_find_profile[of heap_pair 5, OF cls(5)] st'
          blog_other_profile[of heap_pair 5 4, OF cls(5,3)] ty' c3,
        THEN conjunct2, THEN conjunct1, rule_format, of 1, THEN conjunct1, rule_format, of 1]
      cls e3
    by simp
  text \<open>\<^verbatim>\<open>user1.profile = profile4\<close> in the ring: the comparison with \<^verbatim>\<open>user5\<close> raises.\<close>
  have c4: "getattr blog (super_setattr heap_ring 1 ''profile'' (VInst 4)) 4
              (field_name (mk_field ''user'' INSTANCE LOCAL_KEY)) = Inr (VInst 5)"
    by (simp add: blog_eval)
  have r4: "setattr 1 blog heap_ring 1 ''profile'' (VInst 4) =
              Some (Raise RecursionError (super_setattr heap_ring 1 ''profile'' (VInst 4)))"
    using t[OF wf_env_blog attrs_ok_blog attrs_ok_blog
          blog_find_profile[of heap_ring 1, OF cls(7)] st'
          blog_other_profile[of heap_ring 1 4, OF cls(7,6)] ty' c4,
        THEN conjunct2, THEN conjunct1, rule_format, of 5, THEN conjunct2, rule_format,
        of RecursionError 1]
      cls ring_compare_raises
    by simp
  have g1: "getattr blog heap_pair 1 ''profile'' = Inr (VInst 4)"
    by (simp add: blog_eval)
  from wf_env_blog attrs_ok_blog[of heap0 4] attrs_ok_blog[of heap0 1] fu[OF cls(1,2)]
    ou[OF cls(1,2)] c1[unfolded mk_field_sel] r1 g1 c2[unfolded mk_field_sel] r2 c3[unfolded mk_field_sel] e3 r3
    c4[unfolded mk_field_sel] ring_compare_raises r4
  show ?thesis by (intro conjI)
qed

text \<open>
  C1 as it is stated has the inverse field of \<open>b\<close> hold \<open>a\<close> after every \<^verbatim>\<open>a.rel = b\<close>.
  After \<^verbatim>\<open>profile4.user = user1\<close> the assignment \<^verbatim>\<open>user5.profile = profile4\<close> finds
  \<^verbatim>\<open>profile4.user\<close> holding \<^verbatim>\<open>user1\<close>, which the generated \<^verbatim>\<open>__eq__\<close> finds equal to
  \<^verbatim>\<open>user5\<close> (the same fields, the same profile): \<^verbatim>\<open>profile4.user\<close> stays \<^verbatim>\<open>user1\<close>.
  And after \<^verbatim>\<open>profile6.user = user1\<close>, \<^verbatim>\<open>profile4.user = user5\<close> and
  \<^verbatim>\<open>user5.profile = profile6\<close> the assignment \<^verbatim>\<open>user1.profile = profile4\<close> compares
  \<^verbatim>\<open>user5\<close> with \<^verbatim>\<open>user1\<close>, which takes the comparison round the four objects without
  end: the assignment raises \<^verbatim>\<open>RecursionError\<close> and \<^verbatim>\<open>profile4.user\<close> stays \<^verbatim>\<open>user5\<close>.
\<close>

theorem inverse_keeps_other_instance_counterexample:
  "find (\<lambda>f. field_name f = ''profile'') (fields_of blog (class_name (heap_pair 5))) =
     Some (mk_field ''profile'' INSTANCE FOREIGN_KEY) \<and>
   other_field blog (class_name (heap_pair 5)) (class_name (heap_pair 4))
     (mk_field ''profile'' INSTANCE FOREIGN_KEY) = Some (mk_field ''user'' INSTANCE LOCAL_KEY) \<and>
   setattr 2 blog heap0 4 ''user'' (VInst 1) = Some (Return () heap_pair) \<and>
   setattr 2 blog heap_pair 5 ''profile'' (VInst 4) =
     Some (Return () (super_setattr heap_pair 5 ''profile'' (VInst 4))) \<and>
   getattr blog (super_setattr heap_pair 5 ''profile'' (VInst 4)) 4 ''user'' = Inr (VInst 1) \<and>
   getattr blog (super_setattr heap_pair 5 ''profile'' (VInst 4)) 4 ''user'' \<noteq> Inr (VInst 5) \<and>
   setattr 2 blog heap0 6 ''user'' (VInst 1) = Some (Return () heap_ring1) \<and>
   setattr 2 blog heap_ring1 4 ''user'' (VInst 5) = Some (Return () heap_ring2) \<and>
   setattr 2 blog heap_ring2 5 ''profile'' (VInst 6) = Some (Return () heap_ring) \<and>
   setattr 2 blog heap_ring 1 ''profile'' (VInst 4) =
     Some (Raise RecursionError (super_setattr heap_ring 1 ''profile'' (VInst 4))) \<and>
   getattr blog (super_setattr heap_ring 1 ''profile'' (VInst 4)) 4 ''user'' = Inr (VInst 5)"
proof -
  have a: "find (\<lambda>f. field_name f = ''profile'') (fields_of blog (class_name (heap_pair 5))) =
     Some (mk_field ''profile'' INSTANCE FOREIGN_KEY)"
    and b: "other_field blog (class_name (heap_pair 5)) (class_name (heap_pair 4))
     (mk_field ''profile'' INSTANCE FOREIGN_KEY) = Some (mk_field ''user'' INSTANCE LOCAL_KEY)"
    by (simp_all add: blog_eval)
  have c: "setattr 2 blog heap0 4 ''user'' (VInst 1) = Some (Return () heap_pair)"
    and d: "setattr 2 blog heap_pair 5 ''profile'' (VInst 4) =
     Some (Return () (super_setattr heap_pair 5 ''profile'' (VInst 4)))"
    by (simp_all add: numeral_2_eq_2 setattr.simps blog_eval)
  have e: "getattr blog (super_setattr heap_pair 5 ''profile'' (VInst 4)) 4 ''user'' = Inr (VInst 1)"
    and f: "getattr blog (super_setattr heap_pair 5 ''profile'' (VInst 4)) 4 ''user'' \<noteq> Inr (VInst 5)"
    by (simp_all add: blog_eval)
  have g: "setattr 2 blog heap0 6 ''user'' (VInst 1) = Some (Return () heap_ring1)"
    and i: "setattr 2 blog heap_ring1 4 ''user'' (VInst 5) = Some (Return () heap_ring2)"
    and j: "setattr 2 blog heap_ring2 5 ''profile'' (VInst 6) = Some (Return () heap_ring)"
    by (simp_all add: numeral_2_eq_2 setattr.simps blog_eval)
  have k: "setattr 2 blog heap_ring 1 ''profile'' (VInst 4) =
     Some (Raise RecursionError (super_setattr heap_ring 1 ''profile'' (VInst 4)))"
    using ring_assignment_raises[of 1] by (simp add: numeral_2_eq_2)
  have l: "getattr blog (super_setattr heap_ring 1 ''profile'' (VInst 4)) 4 ''user'' = Inr (VInst 5)"
    by (simp add: blog_eval)
  from a b c d e f g i j k l show ?thesis by (intro conjI)
qed

subsection \<open>A multi-valued inverse field\<close>

lemma setattr_list_member_guard:
  assumes sf: "find (\<lambda>f. field_name f = rel) (fields_of E (class_name (h a))) = Some sfield"
    and st: "field_storage (field_description sfield) = LOCAL_KEY \<or>
         field_storage (field_description sfield) = FOREIGN_KEY"
    and ofl: "other_field E (class_name (h a)) (class_name (h b)) sfield = Some ofield"
    and ty: "field_type (field_description ofield) = LIST"
    and cur: "getattr E (super_setattr h a rel (VInst b)) b (field_name ofield) = Inr cur"
    and l: "isinstance_list cur"
  shows "setattr (Suc d) E h a rel (VInst b) =
           (case py_in E (super_setattr h a rel (VInst b)) a (list_items cur) of
              Inl e \<Rightarrow> Some (Raise e (super_setattr h a rel (VInst b)))
            | Inr found \<Rightarrow>
                if \<not> found then
                  Some (Return ()
                    (super_setattr (super_setattr h a rel (VInst b)) b (field_name ofield)
                       (list_append cur (VInst a))))
                else Some (Return () (super_setattr h a rel (VInst b))))"
  using l by (simp add: setattr_Suc hook_step_list_inverse[OF sf st ofl ty cur] split: sum.splits)

lemma setattr_list_fresh:
  assumes sf: "find (\<lambda>f. field_name f = rel) (fields_of E (class_name (h a))) = Some sfield"
    and st: "field_storage (field_description sfield) = LOCAL_KEY \<or>
         field_storage (field_description sfield) = FOREIGN_KEY"
    and ofl: "other_field E (class_name (h a)) (class_name (h b)) sfield = Some ofield"
    and ty: "field_type (field_description ofield) = LIST"
    and cur: "getattr E (super_setattr h a rel (VInst b)) b (field_name ofield) = Inr cur"
    and l: "\<not> isinstance_list cur"
  shows "setattr (Suc (Suc d)) E h a rel (VInst b) =
           Some (Return ()
             (super_setattr (super_setattr h a rel (VInst b)) b (field_name ofield)
                (OwnedList b (field_name ofield) [VInst a])))"
  using l by (simp add: setattr_list_guard[OF sf st ofl ty cur])

text \<open>
  C2, as amended. Let the field \<open>rel\<close> of \<open>a\<close> have storage \<^verbatim>\<open>LOCAL_KEY\<close> or
  \<^verbatim>\<open>FOREIGN_KEY\<close>, let \<^verbatim>\<open>other_field\<close> resolve it to a field of \<open>b\<close> of kind \<^verbatim>\<open>LIST\<close>, and
  let \<open>cur\<close> be what the hook reads from that field of \<open>b\<close> once the forward link is
  stored.
  \<^item> If \<open>cur\<close> is not a list, \<^verbatim>\<open>a.rel = b\<close> replaces it by a new one-element owned list
    holding \<open>a\<close>, with owner \<open>b\<close> and the field name as keypath.
  \<^item> If \<open>cur\<close> is a list, the membership test \<^verbatim>\<open>a in cur\<close> decides: when it finds no
    element equal to \<open>a\<close>, \<open>a\<close> is appended at the end; when it finds one, nothing is
    appended and only the forward link is stored; when a comparison raises, the
    assignment raises the same exception with only the forward link stored.
  \<^item> Where \<open>a\<close> was added, the inverse field holds a list that ends with \<open>a\<close>, after
    the elements that \<open>cur\<close> had.
  \<^item> A following \<^verbatim>\<open>a2.rel = b\<close>, for an \<open>a2\<close> of the class of \<open>a\<close>, goes by the same
    rule. When \<open>a2\<close> is \<open>b\<close> and \<open>rel\<close> is the inverse field itself, the forward link
    overwrites the list and the inverse field ends as the one-element list of \<open>a2\<close>.
    Otherwise the test \<^verbatim>\<open>a2 in\<close> runs on the list that ends with \<open>a\<close>: when it finds
    no equal element the list becomes the elements of \<open>cur\<close> followed by \<open>a\<close>, \<open>a2\<close>;
    when it finds one (it is enough that \<open>a\<close> equals \<open>a2\<close>) the list stays as it is.
\<close>

theorem assignment_joins_list_inverse:
  fixes E :: env and h :: heap and a b a2 :: addr and rel :: string
  defines "h1 \<equiv> super_setattr h a rel (VInst b)"
  assumes sf: "find (\<lambda>f. field_name f = rel) (fields_of E (class_name (h a))) = Some sfield"
    and st: "field_storage (field_description sfield) = LOCAL_KEY \<or>
         field_storage (field_description sfield) = FOREIGN_KEY"
    and ofl: "other_field E (class_name (h a)) (class_name (h b)) sfield = Some ofield"
    and ty: "field_type (field_description ofield) = LIST"
    and cur: "getattr E h1 b (field_name ofield) = Inr cur"
  defines "old \<equiv> (if isinstance_list cur then list_items cur else [])"
  defines "new \<equiv>
       (if isinstance_list cur then list_append cur (VInst a)
        else OwnedList b (field_name ofield) [VInst a])"
  defines "h' \<equiv> super_setattr h1 b (field_name ofield) new"
  defines "h2 \<equiv> super_setattr h' a2 rel (VInst b)"
  shows "(\<not> isinstance_list cur \<longrightarrow>
            (\<forall>d\<ge>2. setattr d E h a rel (VInst b) = Some (Return () h'))) \<and>
         (isinstance_list cur \<longrightarrow>
            (py_in E h1 a (list_items cur) = Inr False \<longrightarrow>
               (\<forall>d\<ge>1. setattr d E h a rel (VInst b) = Some (Return () h'))) \<and>
            (py_in E h1 a (list_items cur) = Inr True \<longrightarrow>
               (\<forall>d\<ge>1. setattr d E h a rel (VInst b) = Some (Return () h1))) \<and>
            (\<forall>e. py_in E h1 a (list_items cur) = Inl e \<longrightarrow>
               (\<forall>d\<ge>1. setattr d E h a rel (VInst b) = Some (Raise e h1)))) \<and>
         (getattr E h' b (field_name ofield) = Inr new \<and> isinstance_list new \<and>
          list_items new = old @ [VInst a]) \<and>
         (class_name (h a2) = class_name (h a) \<longrightarrow>
            (a2 = b \<and> rel = field_name ofield \<longrightarrow>
               (\<forall>d\<ge>2. setattr d E h' a2 rel (VInst b) =
                  Some (Return () (super_setattr h2 b (field_name ofield)
                                     (OwnedList b (field_name ofield) [VInst a2]))))) \<and>
            (a2 \<noteq> b \<or> rel \<noteq> field_name ofield \<longrightarrow>
               (py_in E h2 a2 (list_items new) = Inr False \<longrightarrow>
                  (\<forall>d\<ge>1. setattr d E h' a2 rel (VInst b) =
                     Some (Return () (super_setattr h2 b (field_name ofield)
                                        (list_append new (VInst a2))))) \<and>
                  list_items (list_append new (VInst a2)) = old @ [VInst a, VInst a2]) \<and>
               (py_in E h2 a2 (list_items new) = Inr True \<longrightarrow>
                  (\<forall>d\<ge>1. setattr d E h' a2 rel (VInst b) = Some (Return () h2)) \<and>
                  getattr E h2 b (field_name ofield) = Inr new) \<and>
               (\<forall>e. py_in E h2 a2 (list_items new) = Inl e \<longrightarrow>
                  (\<forall>d\<ge>1. setattr d E h' a2 rel (VInst b) = Some (Raise e h2)))))"
proof -
  let ?inv = "field_name ofield"
  note c = cur[unfolded h1_def]
  have new_list: "isinstance_list new" and new_items: "list_items new = old @ [VInst a]"
    by (simp_all add: new_def old_def isinstance_list_list_append list_items_list_append)
  have get_new: "getattr E h' b ?inv = Inr new"
    by (simp add: h'_def getattr_super_setattr_same)
  have first_fresh: "setattr d E h a rel (VInst b) = Some (Return () h')"
    if "\<not> isinstance_list cur" "2 \<le> d" for d
    using setattr_from_two[OF setattr_list_fresh[OF sf st ofl ty c that(1), of 0] that(2)] that(1)
    by (simp add: h'_def new_def h1_def)
  have first_list: "setattr d E h a rel (VInst b) =
          (case py_in E h1 a (list_items cur) of
              Inl e \<Rightarrow> Some (Raise e h1)
            | Inr found \<Rightarrow> if \<not> found then Some (Return () h') else Some (Return () h1))"
    if l: "isinstance_list cur" and d: "1 \<le> d" for d
  proof -
    let ?R = "case py_in E h1 a (list_items cur) of
              Inl e \<Rightarrow> Some (Raise e h1)
            | Inr found \<Rightarrow> if \<not> found then Some (Return () h') else Some (Return () h1)"
    have g0: "setattr (Suc 0) E h a rel (VInst b) = ?R"
      using l
      by (simp add: setattr_list_member_guard[OF sf st ofl ty c l] h'_def new_def h1_def
          split: sum.splits)
    have "\<exists>r. ?R = Some r" by (cases "py_in E h1 a (list_items cur)") auto
    then obtain r where r: "?R = Some r" ..
    from setattr_from_one[OF g0[unfolded r] d] r show ?thesis by simp
  qed
  have second: "class_name (h a2) = class_name (h a) \<Longrightarrow>
       (a2 = b \<and> rel = ?inv \<longrightarrow>
          (\<forall>d\<ge>2. setattr d E h' a2 rel (VInst b) =
             Some (Return () (super_setattr h2 b ?inv (OwnedList b ?inv [VInst a2]))))) \<and>
       (a2 \<noteq> b \<or> rel \<noteq> ?inv \<longrightarrow>
          (\<forall>d\<ge>1. setattr d E h' a2 rel (VInst b) =
             (case py_in E h2 a2 (list_items new) of
                Inl e \<Rightarrow> Some (Raise e h2)
              | Inr found \<Rightarrow>
                  if \<not> found
                  then Some (Return () (super_setattr h2 b ?inv (list_append new (VInst a2))))
                  else Some (Return () h2))) \<and>
          getattr E h2 b ?inv = Inr new)"
  proof (intro conjI impI allI)
    fix d :: nat
    assume cl: "class_name (h a2) = class_name (h a)" and k: "a2 = b \<and> rel = ?inv" and d: "2 \<le> d"
    have sf2: "find (\<lambda>f. field_name f = rel) (fields_of E (class_name (h' a2))) = Some sfield"
      using sf cl by (simp add: h'_def h1_def)
    have ofl2: "other_field E (class_name (h' a2)) (class_name (h' b)) sfield = Some ofield"
      using ofl cl by (simp add: h'_def h1_def)
    have cur2: "getattr E (super_setattr h' a2 rel (VInst b)) b ?inv = Inr (VInst b)"
      using k by (simp add: getattr_super_setattr_same)
    from setattr_from_two[OF setattr_list_fresh[OF sf2 st ofl2 ty cur2, of 0] d] k
    show "setattr d E h' a2 rel (VInst b) =
             Some (Return () (super_setattr h2 b ?inv (OwnedList b ?inv [VInst a2])))"
      by (simp add: h2_def)
  next
    fix d :: nat
    assume cl: "class_name (h a2) = class_name (h a)" and k: "a2 \<noteq> b \<or> rel \<noteq> ?inv" and d: "1 \<le> d"
    have sf2: "find (\<lambda>f. field_name f = rel) (fields_of E (class_name (h' a2))) = Some sfield"
      using sf cl by (simp add: h'_def h1_def)
    have ofl2: "other_field E (class_name (h' a2)) (class_name (h' b)) sfield = Some ofield"
      using ofl cl by (simp add: h'_def h1_def)
    have cur2: "getattr E (super_setattr h' a2 rel (VInst b)) b ?inv = Inr new"
      using k get_new by (auto simp: getattr_super_setattr_other)
    let ?R = "case py_in E h2 a2 (list_items new) of
                Inl e \<Rightarrow> Some (Raise e h2)
              | Inr found \<Rightarrow>
                  if \<not> found
                  then Some (Return () (super_setattr h2 b ?inv (list_append new (VInst a2))))
                  else Some (Return () h2)"
    have g0: "setattr (Suc 0) E h' a2 rel (VInst b) = ?R"
      by (simp add: setattr_list_member_guard[OF sf2 st ofl2 ty cur2 new_list] h2_def
          split: sum.splits)
    have "\<exists>r. ?R = Some r" by (cases "py_in E h2 a2 (list_items new)") auto
    then obtain r where r: "?R = Some r" ..
    from setattr_from_one[OF g0[unfolded r] d] r
    show "setattr d E h' a2 rel (VInst b) = ?R" by simp
  next
    assume k: "a2 \<noteq> b \<or> rel \<noteq> ?inv"
    with get_new show "getattr E h2 b ?inv = Inr new"
      by (auto simp: h2_def getattr_super_setattr_other)
  qed
  show ?thesis
  proof (intro conjI impI allI)
    fix d :: nat assume "\<not> isinstance_list cur" "2 \<le> d"
    then show "setattr d E h a rel (VInst b) = Some (Return () h')" by (rule first_fresh)
  next
    fix d :: nat
    assume "isinstance_list cur" "py_in E h1 a (list_items cur) = Inr False" "1 \<le> d"
    with first_list[of d] show "setattr d E h a rel (VInst b) = Some (Return () h')" by simp
  next
    fix d :: nat
    assume "isinstance_list cur" "py_in E h1 a (list_items cur) = Inr True" "1 \<le> d"
    with first_list[of d] show "setattr d E h a rel (VInst b) = Some (Return () h1)" by simp
  next
    fix e and d :: nat
    assume "isinstance_list cur" "py_in E h1 a (list_items cur) = Inl e" "1 \<le> d"
    with first_list[of d] show "setattr d E h a rel (VInst b) = Some (Raise e h1)" by simp
  next
    show "getattr E h' b ?inv = Inr new" by (rule get_new)
  next
    show "isinstance_list new" by (rule new_list)
  next
    show "list_items new = old @ [VInst a]" by (rule new_items)
  next
    fix d :: nat
    assume "class_name (h a2) = class_name (h a)" "a2 = b \<and> rel = ?inv" "2 \<le> d"
    with second show "setattr d E h' a2 rel (VInst b) =
             Some (Return () (super_setattr h2 b ?inv (OwnedList b ?inv [VInst a2])))"
      by blast
  next
    fix d :: nat
    assume cl: "class_name (h a2) = class_name (h a)" and k: "a2 \<noteq> b \<or> rel \<noteq> ?inv"
      and p: "py_in E h2 a2 (list_items new) = Inr False" and d: "1 \<le> d"
    from second[OF cl, THEN conjunct2, rule_format, OF k, THEN conjunct1, rule_format, OF d] p
    show "setattr d E h' a2 rel (VInst b) =
            Some (Return () (super_setattr h2 b ?inv (list_append new (VInst a2))))"
      by simp
  next
    show "list_items (list_append new (VInst a2)) = old @ [VInst a, VInst a2]"
      by (simp add: list_items_list_append[OF new_list] new_items)
  next
    fix d :: nat
    assume cl: "class_name (h a2) = class_name (h a)" and k: "a2 \<noteq> b \<or> rel \<noteq> ?inv"
      and p: "py_in E h2 a2 (list_items new) = Inr True" and d: "1 \<le> d"
    from second[OF cl, THEN conjunct2, rule_format, OF k, THEN conjunct1, rule_format, OF d] p
    show "setattr d E h' a2 rel (VInst b) = Some (Return () h2)" by simp
  next
    assume cl: "class_name (h a2) = class_name (h a)" and k: "a2 \<noteq> b \<or> rel \<noteq> ?inv"
    from second[OF cl, THEN conjunct2, rule_format, OF k, THEN conjunct2]
    show "getattr E h2 b ?inv = Inr new" .
  next
    fix e and d :: nat
    assume cl: "class_name (h a2) = class_name (h a)" and k: "a2 \<noteq> b \<or> rel \<noteq> ?inv"
      and p: "py_in E h2 a2 (list_items new) = Inl e" and d: "1 \<le> d"
    from second[OF cl, THEN conjunct2, rule_format, OF k, THEN conjunct1, rule_format, OF d] p
    show "setattr d E h' a2 rel (VInst b) = Some (Raise e h2)" by simp
  qed
qed

lemma loop_compare_raises:
  "instance_eq blog (super_setattr heap_loop 2 ''author'' (VInst 1)) 7 2 = Inl RecursionError"
proof -
  define hl where "hl = super_setattr heap_loop 2 ''author'' (VInst 1)"
  have c: "class_name (hl 5) = ''User''" "class_name (hl 1) = ''User''"
    "class_name (hl 7) = ''Post''" "class_name (hl 2) = ''Post''"
    by (simp_all add: hl_def blog_eval)
  have n: "inst_dict (hl 5) ''name'' = Some VNone" "inst_dict (hl 1) ''name'' = Some VNone"
    "inst_dict (hl 7) ''title'' = Some (VStr ''first'')"
    "inst_dict (hl 2) ''title'' = Some (VStr ''first'')"
    by (simp_all add: hl_def blog_eval)
  have l: "inst_dict (hl 7) ''author'' = Some (VInst 5)" "inst_dict (hl 2) ''author'' = Some (VInst 1)"
    "inst_dict (hl 5) ''posts'' = Some (OwnedList 5 ''posts'' [VInst 2])"
    "inst_dict (hl 1) ''posts'' = Some (OwnedList 1 ''posts'' [VInst 7])"
    by (simp_all add: hl_def blog_eval)
  have "blog_eq recursion_limit hl (VInst 7) (VInst 2) = Inl RecursionError"
    using crossed_posts_raise[where h = hl and u = 5 and u' = 1 and q = 7 and q' = 2
        and n = recursion_limit, OF c _ _ n l]
    by simp
  then show ?thesis by (simp add: hl_def blog_def blog_instance_eq_def)
qed

lemma loop_member_raises:
  "py_in blog (super_setattr heap_loop 2 ''author'' (VInst 1)) 2 [VInst 7] = Inl RecursionError"
proof -
  have c: "class_name (heap_loop 7) = ''Post''" "class_name (heap_loop 2) = ''Post''"
    by (simp_all add: blog_eval)
  with loop_compare_raises show ?thesis by simp
qed

lemma loop_assignment_raises:
  "setattr (Suc d) blog heap_loop 2 ''author'' (VInst 1) =
     Some (Raise RecursionError (super_setattr heap_loop 2 ''author'' (VInst 1)))"
proof -
  have c: "class_name (heap_loop 2) = ''Post''" "class_name (heap_loop 1) = ''User''"
    by (simp_all add: blog_eval)
  have cur: "getattr blog (super_setattr heap_loop 2 ''author'' (VInst 1)) 1
               (field_name (mk_field ''posts'' LIST FOREIGN_KEY)) = Inr (OwnedList 1 ''posts'' [VInst 7])"
    by (simp add: blog_eval)
  have st: "field_storage (field_description (mk_field ''author'' INSTANCE LOCAL_KEY)) = LOCAL_KEY \<or>
            field_storage (field_description (mk_field ''author'' INSTANCE LOCAL_KEY)) = FOREIGN_KEY"
    and ty: "field_type (field_description (mk_field ''posts'' LIST FOREIGN_KEY)) = LIST"
    and l: "isinstance_list (OwnedList 1 ''posts'' [VInst 7])"
    and li: "list_items (OwnedList 1 ''posts'' [VInst 7]) = [VInst 7]"
    by simp_all
  note step = setattr_list_member_guard[OF blog_find_author_of[of heap_loop 2, OF c(1)] st
          blog_other_author_of[of heap_loop 2 1, OF c(1,2)] ty cur l, of d]
  show ?thesis by (subst step) (simp only: li loop_member_raises sum.case)
qed

text \<open>
  The amended statement at \<^verbatim>\<open>post2.author = user1\<close> on new objects, followed by
  \<^verbatim>\<open>post3.author = user1\<close> (another title: appended) or by \<^verbatim>\<open>post7.author = user1\<close> (the
  title of \<^verbatim>\<open>post2\<close>: found equal, not appended), and at \<^verbatim>\<open>post2.author = user1\<close> where the
  membership test raises.
\<close>

theorem assignment_joins_list_inverse_witness:
  "find (\<lambda>f. field_name f = ''author'') (fields_of blog (class_name (heap0 2))) =
     Some (mk_field ''author'' INSTANCE LOCAL_KEY) \<and>
   other_field blog (class_name (heap0 2)) (class_name (heap0 1))
     (mk_field ''author'' INSTANCE LOCAL_KEY) = Some (mk_field ''posts'' LIST FOREIGN_KEY) \<and>
   getattr blog (super_setattr heap0 2 ''author'' (VInst 1)) 1 ''posts'' = Inr VNone \<and>
   setattr 2 blog heap0 2 ''author'' (VInst 1) = Some (Return () heap1) \<and>
   getattr blog heap1 1 ''posts'' = Inr (OwnedList 1 ''posts'' [VInst 2]) \<and>
   py_in blog (super_setattr heap1 3 ''author'' (VInst 1)) 3 [VInst 2] = Inr False \<and>
   setattr 1 blog heap1 3 ''author'' (VInst 1) =
     Some (Return ()
       (super_setattr (super_setattr heap1 3 ''author'' (VInst 1)) 1 ''posts''
          (OwnedList 1 ''posts'' [VInst 2, VInst 3]))) \<and>
   py_in blog (super_setattr heap1 7 ''author'' (VInst 1)) 7 [VInst 2] = Inr True \<and>
   setattr 1 blog heap1 7 ''author'' (VInst 1) =
     Some (Return () (super_setattr heap1 7 ''author'' (VInst 1))) \<and>
   getattr blog (super_setattr heap_loop 2 ''author'' (VInst 1)) 1 ''posts'' =
     Inr (OwnedList 1 ''posts'' [VInst 7]) \<and>
   py_in blog (super_setattr heap_loop 2 ''author'' (VInst 1)) 2 [VInst 7] = Inl RecursionError \<and>
   setattr 1 blog heap_loop 2 ''author'' (VInst 1) =
     Some (Raise RecursionError (super_setattr heap_loop 2 ''author'' (VInst 1)))"
proof -
  have cls: "class_name (heap0 2) = ''Post''" "class_name (heap0 1) = ''User''"
    "class_name (heap0 3) = ''Post''" "class_name (heap0 7) = ''Post''"
    "class_name (heap_loop 2) = ''Post''" "class_name (heap_loop 1) = ''User''"
    by (simp_all add: blog_eval)
  have st: "field_storage (field_description (mk_field ''author'' INSTANCE LOCAL_KEY)) = LOCAL_KEY \<or>
            field_storage (field_description (mk_field ''author'' INSTANCE LOCAL_KEY)) = FOREIGN_KEY"
    and ty: "field_type (field_description (mk_field ''posts'' LIST FOREIGN_KEY)) = LIST"
    by simp_all
  have cur: "getattr blog (super_setattr heap0 2 ''author'' (VInst 1)) 1
               (field_name (mk_field ''posts'' LIST FOREIGN_KEY)) = Inr VNone"
    by (simp add: blog_eval)
  note t3 = assignment_joins_list_inverse
    [where ?a2.0 = 3, OF blog_find_author st blog_other_author ty cur]
  note t7 = assignment_joins_list_inverse
    [where ?a2.0 = 7, OF blog_find_author st blog_other_author ty cur]
  have r1: "setattr 2 blog heap0 2 ''author'' (VInst 1) = Some (Return () heap1)"
    using t3[THEN conjunct1, rule_format, of 2] by (simp add: heap1_def)
  have g1: "getattr blog heap1 1 ''posts'' = Inr (OwnedList 1 ''posts'' [VInst 2])"
    using t3[THEN conjunct2, THEN conjunct2, THEN conjunct1, THEN conjunct1]
    by (simp add: heap1_def)
  have p3: "py_in blog (super_setattr heap1 3 ''author'' (VInst 1)) 3 [VInst 2] = Inr False"
    by (simp add: blog_eval)
  have r3: "setattr 1 blog heap1 3 ''author'' (VInst 1) =
     Some (Return ()
       (super_setattr (super_setattr heap1 3 ''author'' (VInst 1)) 1 ''posts''
          (OwnedList 1 ''posts'' [VInst 2, VInst 3])))"
    using t3[THEN conjunct2, THEN conjunct2, THEN conjunct2, rule_format, THEN conjunct2,
        rule_format, THEN conjunct1, rule_format, THEN conjunct1, rule_format, of 1]
      cls p3
    by (simp add: heap1_def)
  have p7: "py_in blog (super_setattr heap1 7 ''author'' (VInst 1)) 7 [VInst 2] = Inr True"
    by (simp add: blog_eval)
  have r7: "setattr 1 blog heap1 7 ''author'' (VInst 1) =
     Some (Return () (super_setattr heap1 7 ''author'' (VInst 1)))"
    using t7[THEN conjunct2, THEN conjunct2, THEN conjunct2, rule_format, THEN conjunct2,
        rule_format, THEN conjunct2, THEN conjunct1, rule_format, THEN conjunct1, rule_format, of 1]
      cls p7
    by (simp add: heap1_def)
  have cl: "getattr blog (super_setattr heap_loop 2 ''author'' (VInst 1)) 1
               (field_name (mk_field ''posts'' LIST FOREIGN_KEY)) = Inr (OwnedList 1 ''posts'' [VInst 7])"
    by (simp add: blog_eval)
  have rl: "setattr 1 blog heap_loop 2 ''author'' (VInst 1) =
     Some (Raise RecursionError (super_setattr heap_loop 2 ''author'' (VInst 1)))"
    using assignment_joins_list_inverse
      [OF blog_find_author_of[of heap_loop 2, OF cls(5)] st
          blog_other_author_of[of heap_loop 2 1, OF cls(5,6)] ty cl,
        THEN conjunct2, THEN conjunct1, rule_format, THEN conjunct2, THEN conjunct2,
        rule_format, of RecursionError 1]
      loop_member_raises
    by simp
  from blog_find_author blog_other_author cur[unfolded mk_field_sel] r1 g1 p3 r3 p7 r7
    cl[unfolded mk_field_sel] loop_member_raises rl
  show ?thesis by (intro conjI)
qed

text \<open>
  C2 as it is stated has \<open>a\<close> appended whenever the inverse field holds a list, and the
  list equal to \<open>[a, a2]\<close> after a second assignment of a distinct \<open>a2\<close>.
  \<^item> After \<^verbatim>\<open>post2.author = user1\<close> the list of \<^verbatim>\<open>user1.posts\<close> is \<open>[post2]\<close>; the same
    assignment once more finds \<^verbatim>\<open>post2\<close> in it and appends nothing.
  \<^item> \<^verbatim>\<open>post7.author = user1\<close> after it, with \<^verbatim>\<open>post7\<close> another post of the same title,
    finds \<^verbatim>\<open>post2\<close> equal to \<^verbatim>\<open>post7\<close>: the list stays \<open>[post2]\<close>.
  \<^item> After \<^verbatim>\<open>user1.friends = user5\<close> the list of \<^verbatim>\<open>user5.friends\<close> is \<open>[user1]\<close>;
    \<^verbatim>\<open>user5.friends = user5\<close> then stores \<^verbatim>\<open>user5\<close> over the list and ends with
    \<open>[user5]\<close>.
  \<^item> After \<^verbatim>\<open>post7.author = user5\<close>, \<^verbatim>\<open>user5.posts = [post2]\<close> and
    \<^verbatim>\<open>user1.posts = [post7]\<close> the assignment \<^verbatim>\<open>post2.author = user1\<close> tests
    \<^verbatim>\<open>post2 in [post7]\<close>, which compares the two posts, their authors, the authors'
    posts, round and round: it raises \<^verbatim>\<open>RecursionError\<close> and the list stays \<open>[post7]\<close>.
\<close>

theorem list_inverse_not_appended_counterexample:
  "setattr 2 blog heap0 2 ''author'' (VInst 1) = Some (Return () heap1) \<and>
   getattr blog (super_setattr heap1 2 ''author'' (VInst 1)) 1 ''posts'' =
     Inr (OwnedList 1 ''posts'' [VInst 2]) \<and>
   setattr 2 blog heap1 2 ''author'' (VInst 1) =
     Some (Return () (super_setattr heap1 2 ''author'' (VInst 1))) \<and>
   setattr 2 blog heap1 7 ''author'' (VInst 1) =
     Some (Return () (super_setattr heap1 7 ''author'' (VInst 1))) \<and>
   getattr blog (super_setattr heap1 7 ''author'' (VInst 1)) 1 ''posts'' =
     Inr (OwnedList 1 ''posts'' [VInst 2]) \<and>
   setattr 2 blog heap0 1 ''friends'' (VInst 5) = Some (Return () heap_friend) \<and>
   getattr blog heap_friend 5 ''friends'' = Inr (OwnedList 5 ''friends'' [VInst 1]) \<and>
   setattr 2 blog heap_friend 5 ''friends'' (VInst 5) =
     Some (Return ()
       (super_setattr heap_friend 5 ''friends'' (OwnedList 5 ''friends'' [VInst 5]))) \<and>
   setattr 2 blog heap0 7 ''author'' (VInst 5) = Some (Return () heap_loop1) \<and>
   setattr 1 blog heap_loop1 5 ''posts'' (VList [VInst 2]) = Some (Return () heap_loop2) \<and>
   setattr 1 blog heap_loop2 1 ''posts'' (VList [VInst 7]) = Some (Return () heap_loop) \<and>
   setattr 2 blog heap_loop 2 ''author'' (VInst 1) =
     Some (Raise RecursionError (super_setattr heap_loop 2 ''author'' (VInst 1))) \<and>
   getattr blog (super_setattr heap_loop 2 ''author'' (VInst 1)) 1 ''posts'' =
     Inr (OwnedList 1 ''posts'' [VInst 7])"
proof -
  have a: "setattr 2 blog heap0 2 ''author'' (VInst 1) = Some (Return () heap1)"
    and b: "getattr blog (super_setattr heap1 2 ''author'' (VInst 1)) 1 ''posts'' =
     Inr (OwnedList 1 ''posts'' [VInst 2])"
    and c: "setattr 2 blog heap1 2 ''author'' (VInst 1) =
     Some (Return () (super_setattr heap1 2 ''author'' (VInst 1)))"
    by (simp_all add: numeral_2_eq_2 setattr.simps blog_eval)
  have d: "setattr 2 blog heap1 7 ''author'' (VInst 1) =
     Some (Return () (super_setattr heap1 7 ''author'' (VInst 1)))"
    and e: "getattr blog (super_setattr heap1 7 ''author'' (VInst 1)) 1 ''posts'' =
     Inr (OwnedList 1 ''posts'' [VInst 2])"
    by (simp_all add: numeral_2_eq_2 setattr.simps blog_eval)
  have f: "setattr 2 blog heap0 1 ''friends'' (VInst 5) = Some (Return () heap_friend)"
    and g: "getattr blog heap_friend 5 ''friends'' = Inr (OwnedList 5 ''friends'' [VInst 1])"
    and i: "setattr 2 blog heap_friend 5 ''friends'' (VInst 5) =
     Some (Return ()
       (super_setattr heap_friend 5 ''friends'' (OwnedList 5 ''friends'' [VInst 5])))"
    by (simp_all add: numeral_2_eq_2 setattr.simps blog_eval)
  have j: "setattr 2 blog heap0 7 ''author'' (VInst 5) = Some (Return () heap_loop1)"
    and k: "setattr 1 blog heap_loop1 5 ''posts'' (VList [VInst 2]) = Some (Return () heap_loop2)"
    and l: "setattr 1 blog heap_loop2 1 ''posts'' (VList [VInst 7]) = Some (Return () heap_loop)"
    by (simp_all add: numeral_2_eq_2 setattr.simps blog_eval)
  have m: "setattr 2 blog heap_loop 2 ''author'' (VInst 1) =
     Some (Raise RecursionError (super_setattr heap_loop 2 ''author'' (VInst 1)))"
    using loop_assignment_raises[of 1] by (simp add: numeral_2_eq_2)
  have n: "getattr blog (super_setattr heap_loop 2 ''author'' (VInst 1)) 1 ''posts'' =
     Inr (OwnedList 1 ''posts'' [VInst 7])"
    by (simp add: blog_eval)
  from a b c d e f g i j k l m n show ?thesis by (intro conjI)
qed

subsection \<open>Assigning twice\<close>

lemma setattr_agree:
  assumes "setattr d E h self name x = Some r" and "setattr d' E h self name x = Some r'"
  shows "r = r'"
proof -
  from setattr_mono_le[OF max.cobounded1 assms(1), of d']
    setattr_mono_le[OF max.cobounded2 assms(2), of d]
  show ?thesis by simp
qed

lemma reassign_list_link:
  assumes sf: "find (\<lambda>f. field_name f = rel) (fields_of E (class_name (h a))) = Some sfield"
    and st: "field_storage (field_description sfield) = LOCAL_KEY \<or>
         field_storage (field_description sfield) = FOREIGN_KEY"
    and ofl: "other_field E (class_name (h a)) (class_name (h b)) sfield = Some ofield"
    and ty: "field_type (field_description ofield) = LIST"
    and fwd: "inst_dict (h a) rel = Some (VInst b)"
    and new: "getattr E h b (field_name ofield) = Inr new" and l: "isinstance_list new"
    and mem: "py_in E h a (list_items new) \<noteq> Inr False"
    and d: "2 \<le> d"
  shows "setattr d E h a rel (VInst b) =
           Some (case py_in E h a (list_items new) of
                   Inl e \<Rightarrow> Raise e h | Inr found \<Rightarrow> Return () h)"
proof -
  have bk: "super_setattr h a rel (VInst b) = h"
    using fwd by (rule super_setattr_idem)
  from new have cur2: "getattr E (super_setattr h a rel (VInst b)) b (field_name ofield) = Inr new"
    by (simp add: bk)
  have "setattr (Suc (Suc 0)) E h a rel (VInst b) =
          Some (case py_in E h a (list_items new) of
                   Inl e \<Rightarrow> Raise e h | Inr found \<Rightarrow> Return () h)"
    using mem by (simp add: setattr_list_member_guard[OF sf st ofl ty cur2 l] bk
        split: sum.splits)
  from setattr_from_two[OF this d] show ?thesis .
qed

lemma py_in_last: "py_in E h a (xs @ [VInst a]) \<noteq> Inr False"
  by (rule py_in_self) simp

text \<open>
  C3, as amended. With an inverse field of kind \<^verbatim>\<open>LIST\<close> on \<open>b\<close>, let a first
  \<^verbatim>\<open>a.rel = b\<close> return. The inverse field then holds a list, and the same assignment made
  again appends nothing: it runs the membership test on that list, which finds \<open>a\<close> or
  an element equal to it, and it leaves the store as the first assignment left it,
  returning, or raising when a comparison of the test raises. After the first assignment
  \<open>a\<close> occurs in the list exactly once if the field held no list before, or held a list
  in which the test found no element equal to \<open>a\<close>. If the test found one, the first
  assignment left the list as it was: \<open>a\<close> occurs in it as often as before, which may be
  never or more than once.
\<close>

theorem repeated_assignment_adds_no_duplicate:
  fixes E :: env and h :: heap and a b :: addr and rel :: string
  defines "h1 \<equiv> super_setattr h a rel (VInst b)"
  assumes sf: "find (\<lambda>f. field_name f = rel) (fields_of E (class_name (h a))) = Some sfield"
    and st: "field_storage (field_description sfield) = LOCAL_KEY \<or>
         field_storage (field_description sfield) = FOREIGN_KEY"
    and ofl: "other_field E (class_name (h a)) (class_name (h b)) sfield = Some ofield"
    and ty: "field_type (field_description ofield) = LIST"
    and cur: "getattr E h1 b (field_name ofield) = Inr cur"
    and first: "setattr d1 E h a rel (VInst b) = Some (Return () h')"
  defines "new \<equiv>
       (if \<not> isinstance_list cur then OwnedList b (field_name ofield) [VInst a]
        else if py_in E h1 a (list_items cur) = Inr False then list_append cur (VInst a)
        else cur)"
  shows "getattr E h' b (field_name ofield) = Inr new \<and> isinstance_list new \<and>
         py_in E h' a (list_items new) \<noteq> Inr False \<and>
         (\<forall>d\<ge>2. setattr d E h' a rel (VInst b) =
            Some (case py_in E h' a (list_items new) of
                    Inl e \<Rightarrow> Raise e h' | Inr found \<Rightarrow> Return () h')) \<and>
         (\<not> isinstance_list cur \<or> py_in E h1 a (list_items cur) = Inr False \<longrightarrow>
            count_list (list_items new) (VInst a) = 1) \<and>
         (isinstance_list cur \<and> py_in E h1 a (list_items cur) \<noteq> Inr False \<longrightarrow>
            py_in E h1 a (list_items cur) = Inr True \<and> h' = h1 \<and> new = cur)"
proof -
  let ?inv = "field_name ofield"
  note c = cur[unfolded h1_def]
  have two: "setattr (Suc (Suc 0)) E h a rel (VInst b) = Some (Return () h')"
  proof -
    from setattr_terminates[where E = E and h = h and self = a and name = rel and x = "VInst b"]
    obtain r K where K: "\<forall>d\<ge>K. setattr d E h a rel (VInst b) = Some r" by blast
    have "\<exists>r2. setattr (Suc (Suc 0)) E h a rel (VInst b) = Some r2"
      by (cases "py_in E h1 a (list_items cur)")
        (simp_all add: setattr_list_guard[OF sf st ofl ty c] h1_def)
    then obtain r2 where r2: "setattr (Suc (Suc 0)) E h a rel (VInst b) = Some r2" ..
    from setattr_agree[OF r2 first] r2 show ?thesis by simp
  qed
  have cls: "class_name (h1 q) = class_name (h q)" for q
    by (simp add: h1_def)
  have fwd1: "inst_dict (h1 a) rel = Some (VInst b)"
    by (simp add: h1_def inst_dict_super_setattr)
  consider (fresh) "\<not> isinstance_list cur"
    | (added) "isinstance_list cur" "py_in E h1 a (list_items cur) = Inr False"
    | (found) "isinstance_list cur" "py_in E h1 a (list_items cur) = Inr True"
    | (raised) e where "isinstance_list cur" "py_in E h1 a (list_items cur) = Inl e"
    by (cases "py_in E h1 a (list_items cur)") auto
  then show ?thesis
  proof cases
    case fresh
    from two fresh have h': "h' = super_setattr h1 b ?inv (OwnedList b ?inv [VInst a])"
      by (simp add: setattr_list_fresh[OF sf st ofl ty c] h1_def)
    from fresh have nw: "new = OwnedList b ?inv [VInst a]" by (simp add: new_def)
    have g: "getattr E h' b ?inv = Inr new"
      by (simp add: h' nw getattr_super_setattr_same)
    have sf2: "find (\<lambda>f. field_name f = rel) (fields_of E (class_name (h' a))) = Some sfield"
      using sf by (simp add: h' cls)
    have ofl2: "other_field E (class_name (h' a)) (class_name (h' b)) sfield = Some ofield"
      using ofl by (simp add: h' cls)
    have again: "setattr d E h' a rel (VInst b) = Some (Return () h')" if d: "2 \<le> d" for d
    proof (cases "a = b \<and> rel = ?inv")
      case True
      then have bk: "super_setattr h' a rel (VInst b) = h1"
        by (simp add: h' h1_def super_setattr_twice)
      from cur have cur2: "getattr E (super_setattr h' a rel (VInst b)) b ?inv = Inr cur"
        by (simp add: bk)
      from setattr_from_two[OF setattr_list_fresh[OF sf2 st ofl2 ty cur2 fresh, of 0] d]
      have "setattr d E h' a rel (VInst b) =
              Some (Return () (super_setattr (super_setattr h' a rel (VInst b)) b ?inv
                                 (OwnedList b ?inv [VInst a])))" .
      then show ?thesis unfolding bk by (simp only: h'[symmetric])
    next
      case False
      then have fwd: "inst_dict (h' a) rel = Some (VInst b)"
        using fwd1 by (auto simp: h' inst_dict_super_setattr)
      have l: "isinstance_list new" and m: "py_in E h' a (list_items new) \<noteq> Inr False"
        by (simp_all add: nw)
      from reassign_list_link[OF sf2 st ofl2 ty fwd g l m d] show ?thesis by (simp add: nw)
    qed
    from fresh g again show ?thesis by (simp add: nw)
  next
    case added
    from two added have h': "h' = super_setattr h1 b ?inv (list_append cur (VInst a))"
      by (simp add: setattr_list_guard[OF sf st ofl ty c] h1_def)
    from added have nw: "new = list_append cur (VInst a)" by (simp add: new_def)
    have g: "getattr E h' b ?inv = Inr new"
      by (simp add: h' nw getattr_super_setattr_same)
    have l: "isinstance_list new" and items: "list_items new = list_items cur @ [VInst a]"
      using added(1) by (simp_all add: nw isinstance_list_list_append list_items_list_append)
    have m: "py_in E h' a (list_items new) \<noteq> Inr False"
      unfolding items by (rule py_in_last)
    have sf2: "find (\<lambda>f. field_name f = rel) (fields_of E (class_name (h' a))) = Some sfield"
      using sf by (simp add: h' cls)
    have ofl2: "other_field E (class_name (h' a)) (class_name (h' b)) sfield = Some ofield"
      using ofl by (simp add: h' cls)
    have "\<not> (a = b \<and> rel = ?inv)"
    proof
      assume "a = b \<and> rel = ?inv"
      with cur have "cur = VInst b" by (simp add: h1_def getattr_super_setattr_same)
      with added(1) show False by simp
    qed
    then have fwd: "inst_dict (h' a) rel = Some (VInst b)"
      using fwd1 by (auto simp: h' inst_dict_super_setattr)
    have cnt: "count_list (list_items new) (VInst a) = 1"
      using not_py_in_count[OF added(2)] by (simp add: items)
    from reassign_list_link[OF sf2 st ofl2 ty fwd g l m] g l m cnt added
    show ?thesis by simp
  next
    case found
    from two found have h': "h' = h1"
      by (simp add: setattr_list_guard[OF sf st ofl ty c] h1_def)
    from found have nw: "new = cur" by (simp add: new_def)
    have g: "getattr E h' b ?inv = Inr new" using cur by (simp add: h' nw)
    have m: "py_in E h' a (list_items new) \<noteq> Inr False" using found by (simp add: h' nw)
    have sf2: "find (\<lambda>f. field_name f = rel) (fields_of E (class_name (h' a))) = Some sfield"
      using sf unfolding h' h1_def by simp
    have ofl2: "other_field E (class_name (h' a)) (class_name (h' b)) sfield = Some ofield"
      using ofl unfolding h' h1_def by simp
    have fwd: "inst_dict (h' a) rel = Some (VInst b)" using fwd1 by (simp add: h')
    from reassign_list_link[OF sf2 st ofl2 ty fwd g _ m] g m found h' nw
    show ?thesis by simp
  next
    case raised
    with two show ?thesis
      by (simp add: setattr_list_guard[OF sf st ofl ty c] h1_def)
  qed
qed

lemma loop_assignment_raises_again:
  "setattr (Suc d) blog (super_setattr heap_loop 2 ''author'' (VInst 1)) 2 ''author'' (VInst 1) =
     Some (Raise RecursionError (super_setattr heap_loop 2 ''author'' (VInst 1)))"
proof -
  let ?hl = "super_setattr heap_loop 2 ''author'' (VInst 1)"
  have bk: "super_setattr ?hl 2 ''author'' (VInst 1) = ?hl"
    by (rule super_setattr_twice)
  have c: "class_name (?hl 2) = ''Post''" "class_name (?hl 1) = ''User''"
    by (simp_all add: blog_eval)
  have cur: "getattr blog (super_setattr ?hl 2 ''author'' (VInst 1)) 1
               (field_name (mk_field ''posts'' LIST FOREIGN_KEY)) = Inr (OwnedList 1 ''posts'' [VInst 7])"
    by (simp add: blog_eval)
  have st: "field_storage (field_description (mk_field ''author'' INSTANCE LOCAL_KEY)) = LOCAL_KEY \<or>
            field_storage (field_description (mk_field ''author'' INSTANCE LOCAL_KEY)) = FOREIGN_KEY"
    and ty: "field_type (field_description (mk_field ''posts'' LIST FOREIGN_KEY)) = LIST"
    and l: "isinstance_list (OwnedList 1 ''posts'' [VInst 7])"
    and li: "list_items (OwnedList 1 ''posts'' [VInst 7]) = [VInst 7]"
    by simp_all
  note step = setattr_list_member_guard[OF blog_find_author_of[of ?hl 2, OF c(1)] st
          blog_other_author_of[of ?hl 2 1, OF c(1,2)] ty cur l, of d]
  show ?thesis by (subst step) (simp only: bk li loop_member_raises sum.case)
qed

text \<open>
  The amended statement at \<^verbatim>\<open>post2.author = user1\<close> on new objects, made twice, and at
  \<^verbatim>\<open>post3.author = user1\<close> after it, made twice.
\<close>

theorem repeated_assignment_adds_no_duplicate_witness:
  "find (\<lambda>f. field_name f = ''author'') (fields_of blog (class_name (heap0 2))) =
     Some (mk_field ''author'' INSTANCE LOCAL_KEY) \<and>
   other_field blog (class_name (heap0 2)) (class_name (heap0 1))
     (mk_field ''author'' INSTANCE LOCAL_KEY) = Some (mk_field ''posts'' LIST FOREIGN_KEY) \<and>
   getattr blog (super_setattr heap0 2 ''author'' (VInst 1)) 1 ''posts'' = Inr VNone \<and>
   setattr 2 blog heap0 2 ''author'' (VInst 1) = Some (Return () heap1) \<and>
   getattr blog heap1 1 ''posts'' = Inr (OwnedList 1 ''posts'' [VInst 2]) \<and>
   setattr 2 blog heap1 2 ''author'' (VInst 1) = Some (Return () heap1) \<and>
   count_list (list_items (OwnedList 1 ''posts'' [VInst 2])) (VInst 2) = 1 \<and>
   getattr blog (super_setattr heap1 3 ''author'' (VInst 1)) 1 ''posts'' =
     Inr (OwnedList 1 ''posts'' [VInst 2]) \<and>
   py_in blog (super_setattr heap1 3 ''author'' (VInst 1)) 3 [VInst 2] = Inr False \<and>
   setattr 2 blog heap1 3 ''author'' (VInst 1) = Some (Return () heap2) \<and>
   getattr blog heap2 1 ''posts'' = Inr (OwnedList 1 ''posts'' [VInst 2, VInst 3]) \<and>
   setattr 2 blog heap2 3 ''author'' (VInst 1) = Some (Return () heap2) \<and>
   count_list (list_items (OwnedList 1 ''posts'' [VInst 2, VInst 3])) (VInst 3) = 1"
proof -
  have cls: "class_name (heap1 3) = ''Post''" "class_name (heap1 1) = ''User''"
    by (simp_all add: blog_eval)
  have st: "field_storage (field_description (mk_field ''author'' INSTANCE LOCAL_KEY)) = LOCAL_KEY \<or>
            field_storage (field_description (mk_field ''author'' INSTANCE LOCAL_KEY)) = FOREIGN_KEY"
    and ty: "field_type (field_description (mk_field ''posts'' LIST FOREIGN_KEY)) = LIST"
    by simp_all
  have c0: "getattr blog (super_setattr heap0 2 ''author'' (VInst 1)) 1
               (field_name (mk_field ''posts'' LIST FOREIGN_KEY)) = Inr VNone"
    by (simp add: blog_eval)
  have f0: "setattr 2 blog heap0 2 ''author'' (VInst 1) = Some (Return () heap1)"
    by (simp add: numeral_2_eq_2 setattr.simps blog_eval)
  note t0 = repeated_assignment_adds_no_duplicate
    [OF blog_find_author st blog_other_author ty c0 f0, unfolded mk_field_sel]
  have g0: "getattr blog heap1 1 ''posts'' = Inr (OwnedList 1 ''posts'' [VInst 2])"
    using t0[THEN conjunct1] by simp
  have s0: "setattr 2 blog heap1 2 ''author'' (VInst 1) = Some (Return () heap1)"
    using t0[THEN conjunct2, THEN conjunct2, THEN conjunct2, THEN conjunct1, rule_format, of 2]
    by simp
  have n0: "count_list (list_items (OwnedList 1 ''posts'' [VInst 2])) (VInst 2) = 1"
    using t0[THEN conjunct2, THEN conjunct2, THEN conjunct2, THEN conjunct2, THEN conjunct1]
    by simp
  have c1: "getattr blog (super_setattr heap1 3 ''author'' (VInst 1)) 1
               (field_name (mk_field ''posts'' LIST FOREIGN_KEY)) = Inr (OwnedList 1 ''posts'' [VInst 2])"
    by (simp add: blog_eval)
  have p1: "py_in blog (super_setattr heap1 3 ''author'' (VInst 1)) 3 [VInst 2] = Inr False"
    by (simp add: blog_eval)
  have f1: "setattr 2 blog heap1 3 ''author'' (VInst 1) = Some (Return () heap2)"
    by (simp add: numeral_2_eq_2 setattr.simps blog_eval)
  note t1 = repeated_assignment_adds_no_duplicate
    [OF blog_find_author_of[of heap1 3, OF cls(1)] st
        blog_other_author_of[of heap1 3 1, OF cls(1,2)] ty c1 f1, unfolded mk_field_sel]
  have g1: "getattr blog heap2 1 ''posts'' = Inr (OwnedList 1 ''posts'' [VInst 2, VInst 3])"
    using t1[THEN conjunct1] p1 by simp
  have p2: "py_in blog heap2 3 [VInst 2, VInst 3] = Inr True"
    by (simp add: blog_eval)
  have s1: "setattr 2 blog heap2 3 ''author'' (VInst 1) = Some (Return () heap2)"
    using t1[THEN conjunct2, THEN conjunct2, THEN conjunct2, THEN conjunct1, rule_format, of 2]
      p1 p2
    by simp
  have n1: "count_list (list_items (OwnedList 1 ''posts'' [VInst 2, VInst 3])) (VInst 3) = 1"
    using t1[THEN conjunct2, THEN conjunct2, THEN conjunct2, THEN conjunct2, THEN conjunct1] p1
    by simp
  from blog_find_author blog_other_author c0[unfolded mk_field_sel] f0 g0 s0 n0
    c1[unfolded mk_field_sel] p1 f1 g1 s1 n1
  show ?thesis by (intro conjI)
qed

text \<open>
  C3 as it is stated has \<open>a\<close> in the inverse list exactly once after two assignments.
  \<^item> After \<^verbatim>\<open>user1.posts = [post2, post2]\<close> the assignment \<^verbatim>\<open>post2.author = user1\<close>, made
    twice, finds \<^verbatim>\<open>post2\<close> in the list both times: the list stays \<open>[post2, post2]\<close>.
  \<^item> After \<^verbatim>\<open>post2.author = user1\<close> the assignment \<^verbatim>\<open>post7.author = user1\<close>, made twice,
    finds \<^verbatim>\<open>post2\<close> equal to \<^verbatim>\<open>post7\<close> both times: the list stays \<open>[post2]\<close>, and \<^verbatim>\<open>post7\<close>
    is not in it.
  \<^item> In the store where the membership test goes round without end,
    \<^verbatim>\<open>post2.author = user1\<close> raises \<^verbatim>\<open>RecursionError\<close> the first and the second time,
    and the list stays \<open>[post7]\<close>.
\<close>

theorem twice_assigned_not_once_counterexample:
  "setattr 1 blog heap0 1 ''posts'' (VList [VInst 2, VInst 2]) = Some (Return () heap_dup) \<and>
   setattr 2 blog heap_dup 2 ''author'' (VInst 1) =
     Some (Return () (super_setattr heap_dup 2 ''author'' (VInst 1))) \<and>
   setattr 2 blog (super_setattr heap_dup 2 ''author'' (VInst 1)) 2 ''author'' (VInst 1) =
     Some (Return () (super_setattr heap_dup 2 ''author'' (VInst 1))) \<and>
   getattr blog (super_setattr heap_dup 2 ''author'' (VInst 1)) 1 ''posts'' =
     Inr (OwnedList 1 ''posts'' [VInst 2, VInst 2]) \<and>
   count_list (list_items (OwnedList 1 ''posts'' [VInst 2, VInst 2])) (VInst 2) = 2 \<and>
   setattr 2 blog heap0 2 ''author'' (VInst 1) = Some (Return () heap1) \<and>
   setattr 2 blog heap1 7 ''author'' (VInst 1) =
     Some (Return () (super_setattr heap1 7 ''author'' (VInst 1))) \<and>
   setattr 2 blog (super_setattr heap1 7 ''author'' (VInst 1)) 7 ''author'' (VInst 1) =
     Some (Return () (super_setattr heap1 7 ''author'' (VInst 1))) \<and>
   getattr blog (super_setattr heap1 7 ''author'' (VInst 1)) 1 ''posts'' =
     Inr (OwnedList 1 ''posts'' [VInst 2]) \<and>
   count_list (list_items (OwnedList 1 ''posts'' [VInst 2])) (VInst 7) = 0 \<and>
   setattr 2 blog heap_loop 2 ''author'' (VInst 1) =
     Some (Raise RecursionError (super_setattr heap_loop 2 ''author'' (VInst 1))) \<and>
   setattr 2 blog (super_setattr heap_loop 2 ''author'' (VInst 1)) 2 ''author'' (VInst 1) =
     Some (Raise RecursionError (super_setattr heap_loop 2 ''author'' (VInst 1))) \<and>
   getattr blog (super_setattr heap_loop 2 ''author'' (VInst 1)) 1 ''posts'' =
     Inr (OwnedList 1 ''posts'' [VInst 7]) \<and>
   count_list (list_items (OwnedList 1 ''posts'' [VInst 7])) (VInst 2) = 0"
proof -
  have a: "setattr 1 blog heap0 1 ''posts'' (VList [VInst 2, VInst 2]) = Some (Return () heap_dup)"
    and b: "setattr 2 blog heap_dup 2 ''author'' (VInst 1) =
     Some (Return () (super_setattr heap_dup 2 ''author'' (VInst 1)))"
    and c: "setattr 2 blog (super_setattr heap_dup 2 ''author'' (VInst 1)) 2 ''author'' (VInst 1) =
     Some (Return () (super_setattr heap_dup 2 ''author'' (VInst 1)))"
    and d: "getattr blog (super_setattr heap_dup 2 ''author'' (VInst 1)) 1 ''posts'' =
     Inr (OwnedList 1 ''posts'' [VInst 2, VInst 2])"
    and e: "count_list (list_items (OwnedList 1 ''posts'' [VInst 2, VInst 2])) (VInst 2) = 2"
    by (simp_all add: numeral_2_eq_2 setattr.simps blog_eval)
  have f: "setattr 2 blog heap0 2 ''author'' (VInst 1) = Some (Return () heap1)"
    and g: "setattr 2 blog heap1 7 ''author'' (VInst 1) =
     Some (Return () (super_setattr heap1 7 ''author'' (VInst 1)))"
    and i: "setattr 2 blog (super_setattr heap1 7 ''author'' (VInst 1)) 7 ''author'' (VInst 1) =
     Some (Return () (super_setattr heap1 7 ''author'' (VInst 1)))"
    and j: "getattr blog (super_setattr heap1 7 ''author'' (VInst 1)) 1 ''posts'' =
     Inr (OwnedList 1 ''posts'' [VInst 2])"
    and k: "count_list (list_items (OwnedList 1 ''posts'' [VInst 2])) (VInst 7) = 0"
    by (simp_all add: numeral_2_eq_2 setattr.simps blog_eval)
  have l: "setattr 2 blog heap_loop 2 ''author'' (VInst 1) =
     Some (Raise RecursionError (super_setattr heap_loop 2 ''author'' (VInst 1)))"
    using loop_assignment_raises[of 1] by (simp add: numeral_2_eq_2)
  have m: "setattr 2 blog (super_setattr heap_loop 2 ''author'' (VInst 1)) 2 ''author'' (VInst 1) =
     Some (Raise RecursionError (super_setattr heap_loop 2 ''author'' (VInst 1)))"
    using loop_assignment_raises_again[of 1] by (simp add: numeral_2_eq_2)
  have n: "getattr blog (super_setattr heap_loop 2 ''author'' (VInst 1)) 1 ''posts'' =
     Inr (OwnedList 1 ''posts'' [VInst 7])"
    and p: "count_list (list_items (OwnedList 1 ''posts'' [VInst 7])) (VInst 2) = 0"
    by (simp_all add: blog_eval)
  from a b c d e f g i j k l m n p show ?thesis by (intro conjI)
qed

section \<open>An instance under an undeclared name\<close>

text \<open>
  C10, as amended. Assigning a Model Instance under an attribute name for which the class
  of the assigning object declares no field descriptor stores the value and then raises
  \<^verbatim>\<open>StopIteration\<close> from the field lookup \<^verbatim>\<open>next(...)\<close> of the hook: the exception
  leaves the store with the attribute set to the assigned instance.
\<close>

theorem undeclared_instance_assignment_raises:
  assumes "find (\<lambda>f. field_name f = name) (fields_of E (class_name (h self))) = None"
  shows "setattr (Suc d) E h self name (VInst v) =
           Some (Raise StopIteration (super_setattr h self name (VInst v))) \<and>
         getattr E (super_setattr h self name (VInst v)) self name = Inr (VInst v)"
  using assms
  by (simp add: setattr_Suc hook_step_undeclared getattr_super_setattr_same)

theorem undeclared_instance_assignment_raises_witness:
  "find (\<lambda>f. field_name f = ''note'') (fields_of blog (class_name (heap0 2))) = None \<and>
   setattr (Suc 0) blog heap0 2 ''note'' (VInst 1) =
     Some (Raise StopIteration (super_setattr heap0 2 ''note'' (VInst 1))) \<and>
   getattr blog (super_setattr heap0 2 ''note'' (VInst 1)) 2 ''note'' = Inr (VInst 1)"
proof -
  have f: "find (\<lambda>f. field_name f = ''note'') (fields_of blog (class_name (heap0 2))) = None"
    by (simp add: blog_def heap0_def new_post_def blog_fields_def mk_field_def)
  from f undeclared_instance_assignment_raises[where E = blog and h = heap0 and self = 2
      and name = "''note''" and d = 0 and v = 1, OF f]
  show ?thesis by (intro conjI) simp_all
qed

text \<open>
  C10 as it is stated has the assignment fail rather than store the value. For
  \<^verbatim>\<open>post2.note = user1\<close>, where \<^verbatim>\<open>Post\<close> declares no field \<^verbatim>\<open>note\<close> and the attribute did
  not exist before, the store that the exception leaves has \<^verbatim>\<open>post2.note\<close> set to
  \<^verbatim>\<open>user1\<close>: line 166 stores before line 169 raises.
\<close>

theorem raises_after_storing_counterexample:
  "getattr blog heap0 2 ''note'' = Inl (AttributeError ''note'') \<and>
   setattr 1 blog heap0 2 ''note'' (VInst 1) =
     Some (Raise StopIteration (super_setattr heap0 2 ''note'' (VInst 1))) \<and>
   getattr blog (super_setattr heap0 2 ''note'' (VInst 1)) 2 ''note'' = Inr (VInst 1)"
  by (simp add: setattr.simps blog_eval)

section \<open>The lookup map of a top-level operation\<close>



section \<open>What an assignment stores\<close>

text \<open>
  C4, as amended. An assignment through the hook returns or raises for every value, given
  room for enough nested calls. A list is stored as an \<^verbatim>\<open>OwnedList\<close> of its elements whose
  owner is the assigned-to object and whose keypath is the attribute name; a dict is
  stored as an \<^verbatim>\<open>OwnedDict\<close> in the same way; any other value that is not a Model Instance
  is stored as given; in these three cases nothing else in the store changes. A Model
  Instance is stored as given, and when the hook is done the attribute still holds it,
  except that the synchronisation of the other side may have assigned the one-element
  list holding it to the same attribute, which then holds that list as an \<^verbatim>\<open>OwnedList\<close>;
  this cannot happen when the attribute is not a field of kind \<^verbatim>\<open>LIST\<close>.
\<close>

theorem assignment_stores_wrapper_or_value:
  "(isinstance_list x \<longrightarrow>
      setattr (Suc d) E h self name x =
        Some (Return () (super_setattr h self name (OwnedList self name (list_items x))))) \<and>
   (\<not> isinstance_list x \<and> isinstance_dict x \<longrightarrow>
      setattr (Suc d) E h self name x =
        Some (Return () (super_setattr h self name (OwnedDict self name (dict_items x))))) \<and>
   (\<not> isinstance_list x \<and> \<not> isinstance_dict x \<and> (\<forall>v. x \<noteq> VInst v) \<longrightarrow>
      setattr (Suc d) E h self name x = Some (Return () (super_setattr h self name x))) \<and>
   (\<forall>w. getattr E (super_setattr h self name w) self name = Inr w) \<and>
   (\<forall>v r. x = VInst v \<and> setattr d E h self name x = Some r \<longrightarrow>
      (getattr E (heap_of r) self name = Inr x \<or>
       getattr E (heap_of r) self name = Inr (OwnedList self name [x])) \<and>
      (wf_env E \<and> \<not> list_field E (class_name (h self)) name \<longrightarrow>
         getattr E (heap_of r) self name = Inr x)) \<and>
   (\<exists>D r. \<forall>d\<ge>D. setattr d E h self name x = Some r)"
proof (intro conjI impI allI)
  assume "isinstance_list x"
  then show "setattr (Suc d) E h self name x =
        Some (Return () (super_setattr h self name (OwnedList self name (list_items x))))"
    by (simp add: setattr_Suc hook_step_list)
next
  assume "\<not> isinstance_list x \<and> isinstance_dict x"
  then show "setattr (Suc d) E h self name x =
        Some (Return () (super_setattr h self name (OwnedDict self name (dict_items x))))"
    by (simp add: setattr_Suc hook_step_dict)
next
  assume "\<not> isinstance_list x \<and> \<not> isinstance_dict x \<and> (\<forall>v. x \<noteq> VInst v)"
  then show "setattr (Suc d) E h self name x =
        Some (Return () (super_setattr h self name x))"
    by (simp add: setattr_Suc hook_step_plain)
next
  fix w show "getattr E (super_setattr h self name w) self name = Inr w"
    by (rule getattr_super_setattr_same)
next
  fix v r assume a: "x = VInst v \<and> setattr d E h self name x = Some r"
  then have run: "setattr d E h self name (VInst v) = Some r" by (elim conjE) (erule subst)
  from setattr_keeps_or_wraps[OF run, where s = self and v = v and n = name] a
  show "getattr E (heap_of r) self name = Inr x \<or>
       getattr E (heap_of r) self name = Inr (OwnedList self name [x])"
    by (auto simp: getattr_def)
next
  fix v r assume a: "x = VInst v \<and> setattr d E h self name x = Some r"
    and w: "wf_env E \<and> \<not> list_field E (class_name (h self)) name"
  then have run: "setattr d E h self name (VInst v) = Some r" by (elim conjE) (erule subst)
  from w have wf: "wf_env E" and nl: "\<not> list_field E (class_name (h self)) name" by simp_all
  from setattr_keeps_link[OF wf nl run, where s = self and v = v] a
  show "getattr E (heap_of r) self name = Inr x"
    by (auto simp: getattr_def)
next
  from setattr_terminates[where E = E and h = h and self = self and name = name and x = x]
  show "\<exists>D r. \<forall>d\<ge>D. setattr d E h self name x = Some r" by blast
qed

theorem assignment_stores_wrapper_or_value_witness:
  "setattr (Suc 0) blog heap0 1 ''posts'' (VList [VInst 2, VInst 3]) =
     Some (Return () (super_setattr heap0 1 ''posts'' (OwnedList 1 ''posts'' [VInst 2, VInst 3]))) \<and>
   setattr (Suc 0) blog heap0 2 ''title'' (VDict [(''en'', VStr ''x'')]) =
     Some (Return () (super_setattr heap0 2 ''title'' (OwnedDict 2 ''title'' [(''en'', VStr ''x'')]))) \<and>
   setattr (Suc 0) blog heap0 2 ''title'' (VStr ''x'') =
     Some (Return () (super_setattr heap0 2 ''title'' (VStr ''x''))) \<and>
   wf_env blog \<and> \<not> list_field blog (class_name (heap0 4)) ''user'' \<and>
   setattr 2 blog heap0 4 ''user'' (VInst 1) =
     Some (Return ()
       (super_setattr (super_setattr heap0 4 ''user'' (VInst 1)) 1 ''profile'' (VInst 4))) \<and>
   getattr blog (super_setattr (super_setattr heap0 4 ''user'' (VInst 1)) 1 ''profile'' (VInst 4))
     4 ''user'' = Inr (VInst 1)"
proof -
  note t = assignment_stores_wrapper_or_value
  have a: "setattr (Suc 0) blog heap0 1 ''posts'' (VList [VInst 2, VInst 3]) =
     Some (Return () (super_setattr heap0 1 ''posts'' (OwnedList 1 ''posts'' [VInst 2, VInst 3])))"
    using t[where x = "VList [VInst 2, VInst 3]" and d = 0 and E = blog and h = heap0
        and self = 1 and name = "''posts''", THEN conjunct1]
    by simp
  have b: "setattr (Suc 0) blog heap0 2 ''title'' (VDict [(''en'', VStr ''x'')]) =
     Some (Return () (super_setattr heap0 2 ''title'' (OwnedDict 2 ''title'' [(''en'', VStr ''x'')])))"
    using t[where x = "VDict [(''en'', VStr ''x'')]" and d = 0 and E = blog and h = heap0
        and self = 2 and name = "''title''", THEN conjunct2, THEN conjunct1]
    by simp
  have c: "setattr (Suc 0) blog heap0 2 ''title'' (VStr ''x'') =
     Some (Return () (super_setattr heap0 2 ''title'' (VStr ''x'')))"
    using t[where x = "VStr ''x''" and d = 0 and E = blog and h = heap0
        and self = 2 and name = "''title''", THEN conjunct2, THEN conjunct2, THEN conjunct1]
    by simp
  have nl: "\<not> list_field blog (class_name (heap0 4)) ''user''"
    by (simp add: list_field_def blog_def heap0_def new_object_def blog_fields_def mk_field_def)
  have run: "setattr 2 blog heap0 4 ''user'' (VInst 1) =
     Some (Return ()
       (super_setattr (super_setattr heap0 4 ''user'' (VInst 1)) 1 ''profile'' (VInst 4)))"
    by (simp add: numeral_2_eq_2 setattr.simps blog_eval)
  note e = t[where x = "VInst 1" and d = 2 and E = blog and h = heap0
        and self = 4 and name = "''user''", THEN conjunct2, THEN conjunct2, THEN conjunct2,
        THEN conjunct2, THEN conjunct1, rule_format, OF conjI[OF refl run], THEN conjunct2,
        rule_format, OF conjI[OF wf_env_blog nl], unfolded heap_of.simps]
  from a b c wf_env_blog nl run e show ?thesis by (intro conjI)
qed

text \<open>
  C4 as it is stated has every value that is neither a list nor a dict stored as given.
  \<^verbatim>\<open>user1.posts = post2\<close> assigns an instance to the list side of the relationship: the
  hook stores \<^verbatim>\<open>post2\<close>, sets \<^verbatim>\<open>post2.author = user1\<close>, and the hook of that assignment
  finds that \<^verbatim>\<open>user1.posts\<close> is not a list and assigns \<^verbatim>\<open>[post2]\<close> to it. The attribute
  ends as the owned list, not as the instance that was given.
\<close>

theorem instance_rewrapped_counterexample:
  "\<not> isinstance_list (VInst 2) \<and> \<not> isinstance_dict (VInst 2) \<and>
   setattr 3 blog heap0 1 ''posts'' (VInst 2) =
     Some (Return ()
       (super_setattr
          (super_setattr (super_setattr heap0 1 ''posts'' (VInst 2)) 2 ''author'' (VInst 1))
          1 ''posts'' (OwnedList 1 ''posts'' [VInst 2]))) \<and>
   getattr blog
     (super_setattr
        (super_setattr (super_setattr heap0 1 ''posts'' (VInst 2)) 2 ''author'' (VInst 1))
        1 ''posts'' (OwnedList 1 ''posts'' [VInst 2])) 1 ''posts'' \<noteq> Inr (VInst 2)"
  by (simp add: numeral_3_eq_3 setattr.simps blog_eval)

section \<open>Termination of the synchronisation\<close>

lemma inverse_unique:
  assumes sf: "find (\<lambda>f. field_name f = rel) (fields_of E (class_name (h a))) = Some sfield"
    and sf0: "find (\<lambda>f. field_name f = rel) (fields_of E (class_name (h a))) = Some sfield0"
    and ofl: "other_field E (class_name (h a)) (class_name (h b)) sfield = Some ofield"
    and of0: "other_field E (class_name (h a)) (class_name (h v)) sfield0 = Some ofield0"
    and v: "VInst b = VInst v"
  shows "ofield0 = ofield"
proof -
  from v have vb: "b = v" by (simp only: val.inject)
  from sf0[symmetric] sf have "Some sfield0 = Some sfield" by (rule trans)
  then have "sfield0 = sfield" by (simp only: option.inject)
  from of0[unfolded this vb[symmetric], symmetric] ofl have "Some ofield0 = Some ofield"
    by (rule trans)
  then show "ofield0 = ofield" by (simp only: option.inject)
qed

lemma back_link_resolves:
  assumes ty: "field_type (field_description ofield) = INSTANCE"
   and alt: "field_type (field_description ofield) = LIST \<or>
       (\<forall>sf' f'. find (\<lambda>f. field_name f = field_name ofield) (fields_of E (class_name (h b))) = Some sf' \<and>
          other_field E (class_name (h b)) (class_name (h a)) sf' = Some f' \<longrightarrow>
          field_name f' = rel \<and> field_type (field_description f') = INSTANCE)"
      and sf': "find (\<lambda>f. field_name f = n) (fields_of E (class_name (h1 b))) = Some sf'"
      and f': "other_field E (class_name (h1 b)) (class_name (h1 v2)) sf' = Some f'"
      and h1: "h1 = super_setattr h a rel (VInst b)" and n: "n = field_name ofield" and v2: "v2 = a"
  shows "field_name f' = rel \<and> field_type (field_description f') = INSTANCE"
proof -
  from sf'[unfolded h1 n class_name_super_setattr]
  have s1: "find (\<lambda>f. field_name f = field_name ofield) (fields_of E (class_name (h b))) = Some sf'" .
  from f'[unfolded h1 v2 class_name_super_setattr]
  have s2: "other_field E (class_name (h b)) (class_name (h a)) sf' = Some f'" .
  from alt show ?thesis
  proof
    assume "field_type (field_description ofield) = LIST"
    with ty have False by simp
    then show ?thesis ..
  next
    assume "\<forall>sf' f'. find (\<lambda>f. field_name f = field_name ofield) (fields_of E (class_name (h b))) = Some sf' \<and>
          other_field E (class_name (h b)) (class_name (h a)) sf' = Some f' \<longrightarrow>
          field_name f' = rel \<and> field_type (field_description f') = INSTANCE"
    then have "find (\<lambda>f. field_name f = field_name ofield) (fields_of E (class_name (h b))) = Some sf' \<and>
          other_field E (class_name (h b)) (class_name (h a)) sf' = Some f' \<longrightarrow>
          field_name f' = rel \<and> field_type (field_description f') = INSTANCE"
      by (elim allE)
    from this[rule_format, OF conjI[OF s1 s2]] show ?thesis .
  qed
qed


lemma setattr_one_nested:
  assumes sf: "find (\<lambda>f. field_name f = rel) (fields_of E (class_name (h a))) = Some sfield"
    and ofl: "other_field E (class_name (h a)) (class_name (h b)) sfield = Some ofield"
    and alt: "field_type (field_description ofield) = LIST \<or>
       (\<forall>sf' f'. find (\<lambda>f. field_name f = field_name ofield) (fields_of E (class_name (h b))) = Some sf' \<and>
          other_field E (class_name (h b)) (class_name (h a)) sf' = Some f' \<longrightarrow>
          field_name f' = rel \<and> field_type (field_description f') = INSTANCE)"
  shows "\<exists>r. setattr (Suc (Suc 0)) E h a rel (VInst b) = Some r"
proof (cases "hook_step E h a rel (VInst b)")
  case (Finish r)
  then show ?thesis by (simp add: setattr_Suc)
next
  case (Again h1 v n x)
  let ?h1 = "super_setattr h a rel (VInst b)"
  from hook_step_Again[OF Again] obtain sfield0 ofield0 cur0 where
    h1: "h1 = ?h1"
    and sf0: "find (\<lambda>f. field_name f = rel) (fields_of E (class_name (h a))) = Some sfield0"
    and of0: "other_field E (class_name (h a)) (class_name (h v)) sfield0 = Some ofield0"
    and n0: "n = field_name ofield0" and v: "VInst b = VInst v"
    and x0: "(field_type (field_description ofield0) = INSTANCE \<and> x = VInst a) \<or>
            (field_type (field_description ofield0) = LIST \<and> x = VList [VInst a])"
    by blast
  from v have vb: "v = b" by (simp only: val.inject)
  note oo = inverse_unique[OF sf sf0 ofl of0 v]
  note n = n0[unfolded oo] and x = x0[unfolded oo]
  have "\<exists>r. setattr (Suc 0) E h1 b n x = Some r"
  proof (cases "hook_step E h1 b n x")
    case (Finish r)
    then show ?thesis by (simp add: setattr_Suc)
  next
    case inner: (Again h2 v2 n2 x2)
    from hook_step_Again[OF inner] obtain sf' f' cur2 where
      xa: "x = VInst v2" and h2: "h2 = super_setattr h1 b n x"
      and sf': "find (\<lambda>f. field_name f = n) (fields_of E (class_name (h1 b))) = Some sf'"
      and f': "other_field E (class_name (h1 b)) (class_name (h1 v2)) sf' = Some f'"
      and n2: "n2 = field_name f'" and cur2: "getattr E h2 v2 n2 = Inr cur2"
      and alt2: "(field_type (field_description f') = INSTANCE \<and> py_eq E h2 cur2 b = Inr False \<and>
                  x2 = VInst b) \<or>
                 (field_type (field_description f') = LIST \<and> \<not> isinstance_list cur2 \<and>
                  x2 = VList [VInst b])"
      by blast
    from x xa have tyv: "field_type (field_description ofield) = INSTANCE \<and> v2 = a"
      by (elim disjE conjE) (simp_all only: val.inject val.distinct)
    then have ty: "field_type (field_description ofield) = INSTANCE" and v2: "v2 = a"
      by (simp_all only:)
    note bck = back_link_resolves[OF ty alt sf' f' h1 n v2]
    have "inst_dict (h2 a) rel = Some (VInst b)"
      unfolding h2 h1 xa v2 by (auto simp: inst_dict_super_setattr)
    then have slot: "getattr E h2 a rel = Inr (VInst b)" by (rule getattr_inst_dict)
    from cur2[unfolded n2 v2 bck[THEN conjunct1] slot] have c2: "VInst b = cur2"
      by (simp only: sum.inject)
    from alt2 show ?thesis
    proof
      assume "field_type (field_description f') = INSTANCE \<and> py_eq E h2 cur2 b = Inr False \<and>
                  x2 = VInst b"
      then have "py_eq E h2 (VInst b) b = Inr False" unfolding c2 by (elim conjE)
      then show ?thesis by (simp only: py_eq_self sum.inject simp_thms)
    next
      assume "field_type (field_description f') = LIST \<and> \<not> isinstance_list cur2 \<and>
                  x2 = VList [VInst b]"
      with bck have False by simp
      then show ?thesis ..
    qed
  qed
  then obtain r where "setattr (Suc 0) E h1 b n x = Some r" ..
  with Again vb have "setattr (Suc (Suc 0)) E h a rel (VInst b) = Some r"
    by (simp only: setattr_Suc[of "Suc 0"] step.case)
  then show ?thesis ..
qed

text \<open>
  C9, as amended. The assignment \<^verbatim>\<open>a.rel = b\<close> terminates: with room for as many nested
  calls as the classes of \<open>a\<close> and \<open>b\<close> declare fields, and two more, the hook has an
  outcome. It is done after at most one nested assignment when the inverse field on \<open>b\<close>
  is of kind \<^verbatim>\<open>LIST\<close>, and when the inverse field's own inverse, if it has one, is the
  field \<open>rel\<close> with kind \<^verbatim>\<open>INSTANCE\<close>: the nested assignment then finds the forward link in
  place.
\<close>

theorem synchronisation_terminates:
  "(\<exists>r. \<forall>d \<ge> length (fields_of E (class_name (h a))) +
                length (fields_of E (class_name (h b))) + 2.
          setattr d E h a rel (VInst b) = Some r) \<and>
   (find (\<lambda>f. field_name f = rel) (fields_of E (class_name (h a))) = Some sfield \<and>
    other_field E (class_name (h a)) (class_name (h b)) sfield = Some ofield \<and>
    (field_type (field_description ofield) = LIST \<or>
     (\<forall>sf' f'. find (\<lambda>f. field_name f = field_name ofield) (fields_of E (class_name (h b))) = Some sf' \<and>
        other_field E (class_name (h b)) (class_name (h a)) sf' = Some f' \<longrightarrow>
        field_name f' = rel \<and> field_type (field_description f') = INSTANCE)) \<longrightarrow>
    (\<exists>r. \<forall>d\<ge>2. setattr d E h a rel (VInst b) = Some r))"
proof (intro conjI impI)
  from setattr_terminates[where E = E and h = h and self = a and name = rel and x = "VInst b"]
  show "\<exists>r. \<forall>d \<ge> length (fields_of E (class_name (h a))) +
                length (fields_of E (class_name (h b))) + 2.
          setattr d E h a rel (VInst b) = Some r"
    by (simp add: add.commute add.left_commute)
next
  assume A: "find (\<lambda>f. field_name f = rel) (fields_of E (class_name (h a))) = Some sfield \<and>
    other_field E (class_name (h a)) (class_name (h b)) sfield = Some ofield \<and>
    (field_type (field_description ofield) = LIST \<or>
     (\<forall>sf' f'. find (\<lambda>f. field_name f = field_name ofield) (fields_of E (class_name (h b))) = Some sf' \<and>
        other_field E (class_name (h b)) (class_name (h a)) sf' = Some f' \<longrightarrow>
        field_name f' = rel \<and> field_type (field_description f') = INSTANCE))"
  from setattr_one_nested[of rel E h a sfield b ofield] A obtain r where
    "setattr (Suc (Suc 0)) E h a rel (VInst b) = Some r" by blast
  from setattr_mono_le[OF _ this] show "\<exists>r. \<forall>d\<ge>2. setattr d E h a rel (VInst b) = Some r"
    by (intro exI[of _ r]) (simp add: numeral_2_eq_2)
qed

theorem synchronisation_terminates_witness:
  "find (\<lambda>f. field_name f = ''user'') (fields_of blog (class_name (heap0 4))) =
     Some (mk_field ''user'' INSTANCE LOCAL_KEY) \<and>
   other_field blog (class_name (heap0 4)) (class_name (heap0 1))
     (mk_field ''user'' INSTANCE LOCAL_KEY) = Some (mk_field ''profile'' INSTANCE FOREIGN_KEY) \<and>
   (\<exists>r. \<forall>d\<ge>2. setattr d blog heap0 4 ''user'' (VInst 1) = Some r)"
proof -
  have bk: "\<forall>sf' f'. find (\<lambda>f. field_name f = field_name (mk_field ''profile'' INSTANCE FOREIGN_KEY))
                (fields_of blog (class_name (heap0 1))) = Some sf' \<and>
        other_field blog (class_name (heap0 1)) (class_name (heap0 4)) sf' = Some f' \<longrightarrow>
        field_name f' = ''user'' \<and> field_type (field_description f') = INSTANCE"
    by (auto simp: blog_def blog_fields_def blog_other_field_def heap0_def new_object_def
        mk_field_def split: if_splits)
  note t = synchronisation_terminates[where E = blog and h = heap0 and a = 4 and b = 1
      and rel = "''user''", THEN conjunct2, rule_format,
      OF conjI[OF blog_find_user conjI[OF blog_other_user disjI2[OF bk]]]]
  from blog_find_user blog_other_user t show ?thesis by (intro conjI)
qed

text \<open>
  C9 as it is stated has every \<^verbatim>\<open>a.rel = b\<close> done after at most one nested assignment.
  \<^verbatim>\<open>user1.posts = post2\<close> needs two: \<^verbatim>\<open>post2.author = user1\<close>, whose hook does not find
  \<^verbatim>\<open>post2\<close> a member of a list in \<^verbatim>\<open>user1.posts\<close> and assigns \<^verbatim>\<open>user1.posts = [post2]\<close>.
  With room for one nested call the hook is not done, with room for two it is.
\<close>

theorem two_nested_assignments_counterexample:
  "setattr 2 blog heap0 1 ''posts'' (VInst 2) = None \<and>
   setattr 3 blog heap0 1 ''posts'' (VInst 2) \<noteq> None"
  by (simp add: numeral_2_eq_2 numeral_3_eq_3 setattr.simps blog_eval)


section \<open>Batch update\<close>

lemma setattr_not_instance:
  "\<forall>p. v \<noteq> VInst p \<Longrightarrow>
   setattr (Suc d) E h self name v = Some (Return () (super_setattr h self name (stored_value self name v)))"
  by (cases "isinstance_list v"; cases "isinstance_dict v")
    (simp_all add: setattr_Suc hook_step_list hook_step_dict hook_step_plain stored_value_def)


lemma update_loop_terminates:
  "\<exists>D r. \<forall>d\<ge>D. update_loop d E h self kwargs = Some r"
proof (induction kwargs arbitrary: h)
  case Nil
  show ?case by (intro exI[of _ 0] exI[of _ "Return () h"]) simp
next
  case (Cons kv kwargs)
  obtain k v where kv: "kv = (k, v)" by (cases kv)
  from setattr_terminates[where E = E and h = h and self = self and name = k and x = v]
  obtain D1 r1 where r1: "\<forall>d\<ge>D1. setattr d E h self k v = Some r1" by blast
  show ?case
  proof (cases r1)
    case (Raise e h')
    with r1 kv show ?thesis
      by (intro exI[of _ D1] exI[of _ "Raise e h'"]) simp
  next
    case (Return u h')
    from Cons.IH[of h'] obtain D2 r2 where
      r2: "\<forall>d\<ge>D2. update_loop d E h' self kwargs = Some r2" by blast
    from r1 r2 kv Return show ?thesis
      by (intro exI[of _ "max D1 D2"] exI[of _ r2]) simp
  qed
qed

lemma fold_store_other:
  "k \<notin> fst ` set kwargs \<Longrightarrow>
   inst_dict (fold (\<lambda>(k, v) h. super_setattr h self k (stored_value self k v)) kwargs h self) k =
     inst_dict (h self) k"
  by (induction kwargs arbitrary: h) (auto simp: inst_dict_super_setattr)

lemma fold_store_key:
  "distinct (map fst kwargs) \<Longrightarrow> (k, v) \<in> set kwargs \<Longrightarrow>
   inst_dict (fold (\<lambda>(k, v) h. super_setattr h self k (stored_value self k v)) kwargs h self) k =
     Some (stored_value self k v)"
proof (induction kwargs arbitrary: h)
  case Nil
  then show ?case by simp
next
  case (Cons kv kwargs)
  show ?case
  proof (cases "kv = (k, v)")
    case True
    with Cons.prems(1) have "k \<notin> fst ` set kwargs" by simp
    from fold_store_other[OF this] True show ?thesis
      by (simp add: inst_dict_super_setattr)
  next
    case False
    with Cons.prems have "distinct (map fst kwargs)" "(k, v) \<in> set kwargs" by auto
    from Cons.IH[OF this] show ?thesis by simp
  qed
qed

lemma update_loop_plain:
  "\<forall>(k, v)\<in>set kwargs. \<forall>p. v \<noteq> VInst p \<Longrightarrow>
   update_loop (Suc d) E h self kwargs =
     Some (Return () (fold (\<lambda>(k, v) h. super_setattr h self k (stored_value self k v)) kwargs h))"
proof (induction kwargs arbitrary: h)
  case Nil
  then show ?case by simp
next
  case (Cons kv kwargs)
  obtain k v where kv: "kv = (k, v)" by (cases kv)
  with Cons.prems have "\<forall>p. v \<noteq> VInst p" by simp
  from setattr_not_instance[OF this] Cons.IH Cons.prems kv show ?case by simp
qed

lemma set_list_of_set [simp]: "set (list_of_set E ks) = set ks"
  by (simp add: list_of_set_def Let_def)

lemma list_of_set_Nil [simp]: "list_of_set E ks = [] \<longleftrightarrow> ks = []"
  using set_list_of_set[of E ks] by (metis set_empty)

lemma no_unallowed_keys:
  "\<forall>k\<in>set (map fst kwargs). inst_dict (h self) k \<noteq> None \<Longrightarrow> unallowed_keys E h self kwargs = []"
  by (auto simp: unallowed_keys_def filter_empty_conv)

lemma some_unallowed_key:
  "\<exists>k\<in>set (map fst kwargs). inst_dict (h self) k = None \<Longrightarrow> unallowed_keys E h self kwargs \<noteq> []"
  by (auto simp: unallowed_keys_def filter_empty_conv)

lemma update_allowed:
  "\<forall>k\<in>set (map fst kwargs). inst_dict (h self) k \<noteq> None \<Longrightarrow>
   update d E h self kwargs =
     (case update_loop d E h self kwargs of
        None \<Rightarrow> None
      | Some (Raise e h') \<Rightarrow> Some (Raise e h')
      | Some (Return _ h') \<Rightarrow> Some (Return self h'))"
  by (simp add: update_def no_unallowed_keys)

lemma join_contains:
  "k \<in> set ks \<Longrightarrow> \<exists>pre post. join sep ks = pre @ k @ post"
proof (induction sep ks rule: join.induct)
  case (1 sep)
  then show ?case by simp
next
  case (2 sep k')
  then show ?case by (auto intro: exI[of _ "[]"])
next
  case (3 sep k' v va)
  show ?case
  proof (cases "k = k'")
    case True
    then show ?thesis by (auto intro: exI[of _ "[]"])
  next
    case False
    with 3 obtain pre post where "join sep (v # va) = pre @ k @ post" by auto
    then have "join sep (k' # v # va) = (k' @ sep @ pre) @ k @ post" by simp
    then show ?thesis by blast
  qed
qed


lemma update_plain:
  assumes keys: "\<forall>k\<in>set (map fst kwargs). inst_dict (h self) k \<noteq> None"
    and plain: "\<forall>(k, v)\<in>set kwargs. \<forall>p. v \<noteq> VInst p"
    and dist: "distinct (map fst kwargs)"
  shows "\<exists>h'. update (Suc d) E h self kwargs = Some (Return self h') \<and>
           (\<forall>(k, v)\<in>set kwargs. getattr E h' self k = Inr (stored_value self k v))"
proof -
  let ?h' = "fold (\<lambda>(k, v) h. super_setattr h self k (stored_value self k v)) kwargs h"
  have "update (Suc d) E h self kwargs = Some (Return self ?h')"
    by (simp add: update_allowed[where h = h and self = self, OF keys] update_loop_plain[OF plain])
  moreover have "\<forall>(k, v)\<in>set kwargs. getattr E ?h' self k = Inr (stored_value self k v)"
    using fold_store_key[OF dist] by (auto simp: getattr_def)
  ultimately show ?thesis by blast
qed

lemma update_terminates:
  "\<exists>D r. \<forall>d\<ge>D. update d E h self kwargs = Some r"
proof (cases "unallowed_keys E h self kwargs = []")
  case False
  then show ?thesis
    by (intro exI[of _ 0] exI[of _ "Raise (ValueError (''`'' @ join '', '' (unallowed_keys E h self kwargs)
          @ ''` not allowed in '' @ class_name (h self) @ ''.'')) h"])
      (simp add: update_def)
next
  case True
  from update_loop_terminates[of E h self kwargs] obtain D r where
    r: "\<forall>d\<ge>D. update_loop d E h self kwargs = Some r" by blast
  show ?thesis
  proof (cases r)
    case (Return u h')
    with r True show ?thesis
      by (intro exI[of _ D] exI[of _ "Return self h'"]) (simp add: update_def)
  next
    case (Raise e h')
    with r True show ?thesis
      by (intro exI[of _ D] exI[of _ "Raise e h'"]) (simp add: update_def)
  qed
qed

text \<open>
  C5, as amended. \<^verbatim>\<open>update\<close> raises when the mapping has a key that is not an attribute of
  the object (the \<^verbatim>\<open>ValueError\<close> of the code is the spec's KeyMismatch): the message is
  made of the offending keys, each of them and no other key, joined by a comma, and the
  store is the one before the call, since the keys are checked before the first
  assignment. When every key is an attribute, \<^verbatim>\<open>update\<close> has an outcome; the keys are
  assigned in order through the hook; if every assignment returns, \<^verbatim>\<open>update\<close> returns
  \<^verbatim>\<open>self\<close>, and it does so with every key holding its value whenever no value is a Model
  Instance and the keys are distinct; if an assignment raises, \<^verbatim>\<open>update\<close> raises the same
  exception and returns nothing.
\<close>

theorem update_checks_keys_first:
  "((\<exists>k\<in>set (map fst kwargs). inst_dict (h self) k = None) \<longrightarrow>
      update d E h self kwargs =
        Some (Raise (ValueError (''`'' @ join '', '' (unallowed_keys E h self kwargs)
                       @ ''` not allowed in '' @ class_name (h self) @ ''.'')) h) \<and>
      set (unallowed_keys E h self kwargs) =
        {k \<in> set (map fst kwargs). inst_dict (h self) k = None} \<and>
      (\<forall>k\<in>set (unallowed_keys E h self kwargs).
         \<exists>pre post. join '', '' (unallowed_keys E h self kwargs) = pre @ k @ post)) \<and>
   ((\<forall>k\<in>set (map fst kwargs). inst_dict (h self) k \<noteq> None) \<longrightarrow>
      (\<forall>h'. update_loop d E h self kwargs = Some (Return () h') \<longrightarrow>
         update d E h self kwargs = Some (Return self h')) \<and>
      (\<forall>e h'. update_loop d E h self kwargs = Some (Raise e h') \<longrightarrow>
         update d E h self kwargs = Some (Raise e h')) \<and>
      (\<exists>D r. \<forall>d\<ge>D. update d E h self kwargs = Some r) \<and>
      ((\<forall>(k, v)\<in>set kwargs. \<forall>p. v \<noteq> VInst p) \<and> distinct (map fst kwargs) \<longrightarrow>
         (\<exists>h'. update (Suc d) E h self kwargs = Some (Return self h') \<and>
            (\<forall>(k, v)\<in>set kwargs. getattr E h' self k = Inr (stored_value self k v)))))"
proof (intro conjI impI allI ballI)
  assume bad: "\<exists>k\<in>set (map fst kwargs). inst_dict (h self) k = None"
  from some_unallowed_key[where h = h and self = self, OF bad]
  show "update d E h self kwargs =
        Some (Raise (ValueError (''`'' @ join '', '' (unallowed_keys E h self kwargs)
                       @ ''` not allowed in '' @ class_name (h self) @ ''.'')) h)"
    by (simp add: update_def)
next
  show "set (unallowed_keys E h self kwargs) =
        {k \<in> set (map fst kwargs). inst_dict (h self) k = None}"
    by (auto simp: unallowed_keys_def)
next
  fix k assume "k \<in> set (unallowed_keys E h self kwargs)"
  then show "\<exists>pre post. join '', '' (unallowed_keys E h self kwargs) = pre @ k @ post"
    by (rule join_contains)
next
  fix h' assume keys: "\<forall>k\<in>set (map fst kwargs). inst_dict (h self) k \<noteq> None"
    and "update_loop d E h self kwargs = Some (Return () h')"
  then show "update d E h self kwargs = Some (Return self h')"
    by (simp add: update_allowed)
next
  fix e h' assume keys: "\<forall>k\<in>set (map fst kwargs). inst_dict (h self) k \<noteq> None"
    and "update_loop d E h self kwargs = Some (Raise e h')"
  then show "update d E h self kwargs = Some (Raise e h')"
    by (simp add: update_allowed)
next
  show "\<exists>D r. \<forall>d\<ge>D. update d E h self kwargs = Some r"
    by (rule update_terminates)
next
  assume keys: "\<forall>k\<in>set (map fst kwargs). inst_dict (h self) k \<noteq> None"
    and "(\<forall>(k, v)\<in>set kwargs. \<forall>p. v \<noteq> VInst p) \<and> distinct (map fst kwargs)"
  then show "\<exists>h'. update (Suc d) E h self kwargs = Some (Return self h') \<and>
            (\<forall>(k, v)\<in>set kwargs. getattr E h' self k = Inr (stored_value self k v))"
    by (intro update_plain) simp_all
qed

theorem update_checks_keys_first_witness:
  "update 0 blog heap0 2 [(''title'', VStr ''t''), (''colour'', VInt 1), (''size'', VInt 2)] =
     Some (Raise (ValueError ''`colour, size` not allowed in Post.'') heap0) \<and>
   update_loop 1 blog heap0 2 [(''title'', VList [VStr ''a''])] =
     Some (Return () (super_setattr heap0 2 ''title'' (OwnedList 2 ''title'' [VStr ''a'']))) \<and>
   update 1 blog heap0 2 [(''title'', VList [VStr ''a''])] =
     Some (Return 2 (super_setattr heap0 2 ''title'' (OwnedList 2 ''title'' [VStr ''a''])))"
proof -
  note t = update_checks_keys_first
  have bad: "\<exists>k\<in>set (map fst [(''title'', VStr ''t''), (''colour'', VInt 1), (''size'', VInt 2)]).
               inst_dict (heap0 2) k = None"
    by (simp add: heap0_def new_post_def new_object_def blog_fields_def mk_field_def)
  have a: "update 0 blog heap0 2 [(''title'', VStr ''t''), (''colour'', VInt 1), (''size'', VInt 2)] =
     Some (Raise (ValueError ''`colour, size` not allowed in Post.'') heap0)"
    using t[where d = 0 and E = blog and h = heap0 and self = 2
        and kwargs = "[(''title'', VStr ''t''), (''colour'', VInt 1), (''size'', VInt 2)]",
        THEN conjunct1, rule_format, OF bad, THEN conjunct1]
    by (simp add: unallowed_keys_def list_of_set_def Let_def blog_def heap0_def new_post_def
        new_object_def blog_fields_def mk_field_def)
  have keys: "\<forall>k\<in>set (map fst [(''title'', VList [VStr ''a''])]). inst_dict (heap0 2) k \<noteq> None"
    by (simp add: heap0_def new_post_def)
  have l: "update_loop 1 blog heap0 2 [(''title'', VList [VStr ''a''])] =
     Some (Return () (super_setattr heap0 2 ''title'' (OwnedList 2 ''title'' [VStr ''a''])))"
    by (simp add: setattr_Suc hook_step_list)
  note b = t[where d = 1 and E = blog and h = heap0 and self = 2
        and kwargs = "[(''title'', VList [VStr ''a''])]",
        THEN conjunct2, THEN mp, OF keys, THEN conjunct1, THEN spec, THEN mp, OF l]
  from a l b show ?thesis by (intro conjI)
qed

text \<open>
  C5 as it is stated has \<^verbatim>\<open>update\<close> return \<^verbatim>\<open>self\<close> whenever every key is an attribute.
  \<^verbatim>\<open>post2.update(note=user1)\<close>, with \<^verbatim>\<open>note\<close> an attribute of \<^verbatim>\<open>post2\<close> that is no field of
  \<^verbatim>\<open>Post\<close>, raises \<^verbatim>\<open>StopIteration\<close> out of the hook, however deep the calls may nest.
\<close>

theorem update_raises_counterexample:
  "inst_dict (heap_note 2) ''note'' = Some (VInt 1) \<and>
   update 1 blog heap_note 2 [(''note'', VInst 1)] =
     Some (Raise StopIteration (super_setattr heap_note 2 ''note'' (VInst 1))) \<and>
   update 5 blog heap_note 2 [(''note'', VInst 1)] =
     Some (Raise StopIteration (super_setattr heap_note 2 ''note'' (VInst 1)))"
proof -
  have f: "find (\<lambda>f. field_name f = ''note'') (fields_of blog (class_name (heap_note 2))) = None"
    by (simp add: heap_note_def blog_def heap0_def new_post_def blog_fields_def mk_field_def)
  have k: "inst_dict (heap_note 2) ''note'' = Some (VInt 1)"
    by (simp add: heap_note_def inst_dict_super_setattr)
  have u: "unallowed_keys blog heap_note 2 [(''note'', VInst 1)] = []"
    using k by (simp add: unallowed_keys_def)
  have s: "setattr (Suc d) blog heap_note 2 ''note'' (VInst 1) =
      Some (Raise StopIteration (super_setattr heap_note 2 ''note'' (VInst 1)))" for d
    by (simp add: setattr_Suc hook_step_undeclared[where h = heap_note and self = 2, OF f])
  have "update (Suc d) blog heap_note 2 [(''note'', VInst 1)] =
     Some (Raise StopIteration (super_setattr heap_note 2 ''note'' (VInst 1)))" for d
    using u s[of d] by (simp add: update_def Let_def)
  from k this[of 0] this[of 4] show ?thesis by (simp add: eval_nat_numeral)
qed

section \<open>The assignments of \<^verbatim>\<open>update\<close>\<close>








end
